theory Spec2Isabelle
  imports Complex_Main "HOL-Library.Char_ord" "HOL-Library.List_Lexorder" "HOL-Library.Product_Lexorder"
begin

section \<open>Text primitives of the script\<close>

text \<open>
  The script \<^verbatim>\<open>scripts/generate_sensor_power_table.py\<close> works on Python strings.
  A string is modelled as a \<^typ>\<open>string\<close>; a character stands for a code point below 256,
  and the character classes below are Python's on that range: \<^verbatim>\<open>\d\<close> is
  \<^verbatim>\<open>0\<close>..\<^verbatim>\<open>9\<close>, and \<^verbatim>\<open>\s\<close> and \<^verbatim>\<open>str.strip()\<close> use
  \<^verbatim>\<open>str.isspace\<close> (tab, line feed, vertical tab, form feed, carriage return, the four
  separators 28..31, space, NEL and the no-break space).
\<close>

definition is_digit :: "char \<Rightarrow> bool" where
  "is_digit c = (CHR ''0'' \<le> c \<and> c \<le> CHR ''9'')"

definition is_space :: "char \<Rightarrow> bool" where
  "is_space c = (of_char c \<in> {9, 10, 11, 12, 13, 28, 29, 30, 31, 32, 133, 160 :: nat})"

definition strip :: "string \<Rightarrow> string" where
  "strip s = rev (dropWhile is_space (rev (dropWhile is_space s)))"

text \<open>\<^verbatim>\<open>s.split(",")\<close>: every separator cuts, so the result is never empty.\<close>

fun split_on :: "char \<Rightarrow> string \<Rightarrow> string list" where
  "split_on sep [] = [[]]"
| "split_on sep (c # cs) =
     (if c = sep then [] # split_on sep cs
      else (case split_on sep cs of w # ws \<Rightarrow> (c # w) # ws | [] \<Rightarrow> [[c]]))"

definition startswith :: "string \<Rightarrow> string \<Rightarrow> bool" where
  "startswith s p = (take (length p) s = p)"

text \<open>\<^verbatim>\<open>sub in s\<close> on strings.\<close>

fun str_contains :: "string \<Rightarrow> string \<Rightarrow> bool" where
  "str_contains sub [] = (sub = [])"
| "str_contains sub (c # cs) = (startswith (c # cs) sub \<or> str_contains sub cs)"

text \<open>The value of a string of decimal digits, and Python's \<^verbatim>\<open>int(s)\<close> on an already
  stripped string: an optional sign, then digits, where single underscores may separate
  digits. \<open>None\<close> stands for the \<^verbatim>\<open>ValueError\<close> that \<^verbatim>\<open>int\<close> raises.\<close>

definition digit_val :: "char \<Rightarrow> nat" where
  "digit_val c = of_char c - of_char CHR ''0''"

definition dec_val :: "string \<Rightarrow> nat" where
  "dec_val s = foldl (\<lambda>a c. 10 * a + digit_val c) 0 s"

fun int_digits :: "string \<Rightarrow> string option" where
  "int_digits [] = Some []"
| "int_digits (c # cs) =
     (if is_digit c then map_option ((#) c) (int_digits cs)
      else if c = CHR ''_'' then
        (case cs of [] \<Rightarrow> None
         | d # ds \<Rightarrow> if is_digit d then map_option ((#) d) (int_digits ds) else None)
      else None)"

definition int_body :: "string \<Rightarrow> nat option" where
  "int_body s =
     (case s of [] \<Rightarrow> None
      | c # cs \<Rightarrow> if is_digit c then map_option (\<lambda>ds. dec_val (c # ds)) (int_digits cs) else None)"

definition py_int :: "string \<Rightarrow> int option" where
  "py_int s =
     (case s of [] \<Rightarrow> None
      | c # cs \<Rightarrow>
          if c = CHR ''-'' then map_option (\<lambda>n. - int n) (int_body cs)
          else if c = CHR ''+'' then map_option int (int_body cs)
          else map_option int (int_body s))"

section \<open>Regular expressions as the script uses them\<close>

text \<open>
  The three patterns of the script use character classes, sequencing, the greedy
  \<^verbatim>\<open>?\<close>, greedy \<^verbatim>\<open>*\<close> and \<^verbatim>\<open>+\<close> on a character class, the lazy \<^verbatim>\<open>+?\<close> on a
  character class, capturing groups and \<^verbatim>\<open>$\<close>. The matcher is a backtracking matcher
  in continuation-passing style with the priorities of Python's \<^verbatim>\<open>re\<close>: a greedy
  operator tries the longer match first, a lazy one the shorter, and the first
  alternative that lets the rest of the pattern succeed wins.
\<close>

datatype cls = Digit | Space | Upper | AnyChar | Lit char | Except char | OneOf string

fun cls_has :: "cls \<Rightarrow> char \<Rightarrow> bool" where
  "cls_has Digit c = is_digit c"
| "cls_has Space c = is_space c"
| "cls_has Upper c = (CHR ''A'' \<le> c \<and> c \<le> CHR ''Z'')"
| "cls_has AnyChar c = (c \<noteq> CHR 0x0A)"
| "cls_has (Lit a) c = (c = a)"
| "cls_has (Except a) c = (c \<noteq> a)"
| "cls_has (OneOf as) c = (c \<in> set as)"

datatype rx = Eps | C cls | Seq rx rx | Opt rx | Star cls | Plus cls | PlusLazy cls
  | Grp nat rx | Eol

type_synonym caps = "(nat \<times> string) list"

fun star_greedy :: "(char \<Rightarrow> bool) \<Rightarrow> string \<Rightarrow> (string \<Rightarrow> 'a option) \<Rightarrow> 'a option" where
  "star_greedy P [] k = k []"
| "star_greedy P (x # xs) k =
     (if P x then (case star_greedy P xs k of Some r \<Rightarrow> Some r | None \<Rightarrow> k (x # xs))
      else k (x # xs))"

fun plus_lazy :: "(char \<Rightarrow> bool) \<Rightarrow> string \<Rightarrow> (string \<Rightarrow> 'a option) \<Rightarrow> 'a option" where
  "plus_lazy P [] k = None"
| "plus_lazy P (x # xs) k =
     (if P x then (case k xs of Some r \<Rightarrow> Some r | None \<Rightarrow> plus_lazy P xs k)
      else None)"

text \<open>\<open>rmatch r s cs k\<close> matches \<open>r\<close> at the front of \<open>s\<close> and hands the rest of the
  string and the captures to the continuation \<open>k\<close>; \<open>None\<close> makes the matcher backtrack.
  \<^verbatim>\<open>$\<close> (without \<^verbatim>\<open>MULTILINE\<close>) holds at the end of the string and just before a line
  feed that ends the string.\<close>

fun rmatch :: "rx \<Rightarrow> string \<Rightarrow> caps \<Rightarrow> (string \<Rightarrow> caps \<Rightarrow> 'a option) \<Rightarrow> 'a option" where
  "rmatch Eps s cs k = k s cs"
| "rmatch (C c) s cs k =
     (case s of [] \<Rightarrow> None | x # xs \<Rightarrow> if cls_has c x then k xs cs else None)"
| "rmatch (Seq a b) s cs k = rmatch a s cs (\<lambda>s' cs'. rmatch b s' cs' k)"
| "rmatch (Opt a) s cs k = (case rmatch a s cs k of Some r \<Rightarrow> Some r | None \<Rightarrow> k s cs)"
| "rmatch (Star c) s cs k = star_greedy (cls_has c) s (\<lambda>s'. k s' cs)"
| "rmatch (Plus c) s cs k =
     (case s of [] \<Rightarrow> None
      | x # xs \<Rightarrow> if cls_has c x then star_greedy (cls_has c) xs (\<lambda>s'. k s' cs) else None)"
| "rmatch (PlusLazy c) s cs k = plus_lazy (cls_has c) s (\<lambda>s'. k s' cs)"
| "rmatch (Grp n a) s cs k =
     rmatch a s cs (\<lambda>s' cs'. k s' (cs' @ [(n, take (length s - length s') s)]))"
| "rmatch Eol s cs k = (if s = [] \<or> s = [CHR 0x0A] then k s cs else None)"

fun lits :: "string \<Rightarrow> rx" where
  "lits [] = Eps"
| "lits (c # cs) = Seq (C (Lit c)) (lits cs)"

fun seqs :: "rx list \<Rightarrow> rx" where
  "seqs [] = Eps"
| "seqs [r] = r"
| "seqs (r # rs) = Seq r (seqs rs)"

text \<open>A match object: the text of group 0 and the captures. \<open>re_match_at\<close> also gives
  the rest of the subject after the match; with \<open>must_advance\<close> an empty match is
  refused, as in \<^verbatim>\<open>findall\<close> after an empty match.\<close>

type_synonym match = "string \<times> caps"

definition re_match_at :: "rx \<Rightarrow> string \<Rightarrow> bool \<Rightarrow> (match \<times> string) option" where
  "re_match_at r s must_advance =
     rmatch r s []
       (\<lambda>s' cs. if must_advance \<and> length s' = length s then None
                else Some ((take (length s - length s') s, cs), s'))"

text \<open>\<^verbatim>\<open>pattern.match(s)\<close>: anchored at the start of \<open>s\<close>.\<close>

definition re_match :: "rx \<Rightarrow> string \<Rightarrow> match option" where
  "re_match r s = map_option fst (re_match_at r s False)"

text \<open>\<^verbatim>\<open>pattern.search(s)\<close>: the match at the leftmost position that has one.\<close>

fun re_search :: "rx \<Rightarrow> string \<Rightarrow> match option" where
  "re_search r [] = re_match r []"
| "re_search r (x # xs) =
     (case re_match r (x # xs) of Some m \<Rightarrow> Some m | None \<Rightarrow> re_search r xs)"

text \<open>\<^verbatim>\<open>m.group(n)\<close>. A group that took no part in the match would be \<^verbatim>\<open>None\<close>; every
  group of the script's patterns takes part in every match, and the model gives the empty
  string otherwise.\<close>

definition group :: "match \<Rightarrow> nat \<Rightarrow> string" where
  "group m n = (if n = 0 then fst m else (case map_of (snd m) n of Some g \<Rightarrow> g | None \<Rightarrow> []))"

text \<open>A match never hands more than the subject to its continuation; \<^verbatim>\<open>findall\<close>
  terminates by this.\<close>

lemma star_greedy_length:
  "star_greedy P s k = Some x \<Longrightarrow> \<exists>s'. k s' = Some x \<and> length s' \<le> length s"
proof (induction s)
  case Nil
  then show ?case by auto
next
  case (Cons c s)
  show ?case
  proof (cases "P c \<and> star_greedy P s k \<noteq> None")
    case True
    with Cons.prems have "star_greedy P s k = Some x" by auto
    from Cons.IH [OF this] show ?thesis by auto
  next
    case False
    with Cons.prems have "k (c # s) = Some x" by (auto split: if_splits option.splits)
    then show ?thesis by auto
  qed
qed

lemma plus_lazy_length:
  "plus_lazy P s k = Some x \<Longrightarrow> \<exists>s'. k s' = Some x \<and> length s' < length s"
proof (induction s)
  case Nil
  then show ?case by simp
next
  case (Cons c s)
  show ?case
  proof (cases "k s")
    case None
    with Cons.prems have "plus_lazy P s k = Some x" by (auto split: if_splits)
    from Cons.IH [OF this] show ?thesis by auto
  next
    case (Some y)
    with Cons.prems have "k s = Some x" by (auto split: if_splits)
    then show ?thesis by auto
  qed
qed

lemma rmatch_length:
  "rmatch r s cs k = Some x \<Longrightarrow> \<exists>s' cs'. k s' cs' = Some x \<and> length s' \<le> length s"
proof (induction r arbitrary: s cs k)
  case Eps
  then show ?case by auto
next
  case (C c)
  then show ?case by (cases s) (auto split: if_splits)
next
  case (Seq a b)
  from Seq.prems have "rmatch a s cs (\<lambda>s' cs'. rmatch b s' cs' k) = Some x" by simp
  from Seq.IH(1) [OF this] obtain s1 c1 where
    1: "rmatch b s1 c1 k = Some x" and 2: "length s1 \<le> length s" by auto
  from Seq.IH(2) [OF 1] obtain s2 c2 where
    "k s2 c2 = Some x" and "length s2 \<le> length s1" by auto
  with 2 show ?case by (meson le_trans)
next
  case (Opt a)
  show ?case
  proof (cases "rmatch a s cs k")
    case None
    with Opt.prems show ?thesis by auto
  next
    case (Some y)
    with Opt.prems have "rmatch a s cs k = Some x" by simp
    from Opt.IH [OF this] show ?thesis .
  qed
next
  case (Star c)
  then have "star_greedy (cls_has c) s (\<lambda>s'. k s' cs) = Some x" by simp
  from star_greedy_length [OF this] show ?case by auto
next
  case (Plus c)
  then obtain y ys where s: "s = y # ys"
    and "star_greedy (cls_has c) ys (\<lambda>s'. k s' cs) = Some x"
    by (cases s) (auto split: if_splits)
  from star_greedy_length [OF this(2)] s show ?case by auto
next
  case (PlusLazy c)
  then have "plus_lazy (cls_has c) s (\<lambda>s'. k s' cs) = Some x" by simp
  from plus_lazy_length [OF this] show ?case by (meson less_imp_le)
next
  case (Grp n a)
  from Grp.prems
  have "rmatch a s cs (\<lambda>s' cs'. k s' (cs' @ [(n, take (length s - length s') s)])) = Some x"
    by simp
  from Grp.IH [OF this] show ?case by auto
next
  case Eol
  then show ?case by (auto split: if_splits)
qed

lemma re_match_at_length:
  assumes "re_match_at r s adv = Some (m, s')"
  shows "length s' \<le> length s" and "adv \<Longrightarrow> length s' < length s"
proof -
  from assms obtain s1 c1 where
    k: "(if adv \<and> length s1 = length s then None
         else Some ((take (length s - length s1) s, c1), s1)) = Some (m, s')"
    and le: "length s1 \<le> length s"
    unfolding re_match_at_def by (blast dest: rmatch_length)
  from k have "s1 = s'" by (auto split: if_splits)
  with le show "length s' \<le> length s" by simp
  from k le \<open>s1 = s'\<close> show "adv \<Longrightarrow> length s' < length s" by (auto split: if_splits)
qed

text \<open>\<^verbatim>\<open>pattern.findall(s)\<close> for a pattern with one group: the texts of group 1 of the
  successive matches, each search starting where the previous match ended.\<close>

function findall_from :: "rx \<Rightarrow> string \<Rightarrow> bool \<Rightarrow> string list" where
  "findall_from r s adv =
     (case re_match_at r s adv of
        Some (m, s') \<Rightarrow> group m 1 # findall_from r s' (length s' = length s)
      | None \<Rightarrow> (case s of [] \<Rightarrow> [] | x # xs \<Rightarrow> findall_from r xs False))"
  by pat_completeness auto

termination
proof (relation "measures [\<lambda>(r, s, adv). length s, \<lambda>(r, s, adv). if adv then 0 else 1]")
  show "wf (measures [\<lambda>(r, s, adv). length s, \<lambda>(r, s, adv). if adv then 0 else 1])"
    by simp
next
  fix r :: rx and s :: string and adv :: bool and x2 :: "match \<times> string" and m s'
  assume "re_match_at r s adv = Some x2" and "(m, s') = x2"
  then have "re_match_at r s adv = Some (m, s')" by simp
  from re_match_at_length [OF this]
  show "((r, s', length s' = length s), r, s, adv)
        \<in> measures [\<lambda>(r, s, adv). length s, \<lambda>(r, s, adv). if adv then 0 else 1]"
    by (cases adv) auto
next
  fix r :: rx and s :: string and adv :: bool and x xs
  assume "s = x # xs"
  then show "((r, xs, False), r, s, adv)
        \<in> measures [\<lambda>(r, s, adv). length s, \<lambda>(r, s, adv). if adv then 0 else 1]"
    by simp
qed

declare findall_from.simps [simp del]

definition findall :: "rx \<Rightarrow> string \<Rightarrow> string list" where
  "findall r s = findall_from r s False"

section \<open>Float Extractor\<close>

text \<open>
  \<^verbatim>\<open>WGSL_FLOAT_RE = re.compile(r"[-+]?\d*\.?\d+(?:[eE][-+]?\d+)?")\<close>
\<close>

definition WGSL_FLOAT_RE :: rx where
  "WGSL_FLOAT_RE =
     seqs [Opt (C (OneOf ''-+'')), Star Digit, Opt (C (Lit CHR ''.'')), Plus Digit,
           Opt (seqs [C (OneOf ''eE''), Opt (C (OneOf ''-+'')), Plus Digit])]"

text \<open>
  The exceptions of the script. All three \<^verbatim>\<open>raise ValueError\<close> sites are told apart
  by what their message holds: \<open>ParseError p\<close> is "Could not parse float from vec4
  component: p", \<open>MalformedTableError i l\<close> is "Unexpected AMINO_DATA row format for
  idx=i: l" and \<open>ComponentCountError i v\<close> is "Unexpected vec4 component count for
  idx=i: v". \<open>IntError s\<close> is the \<^verbatim>\<open>ValueError\<close> of \<^verbatim>\<open>int(s)\<close>, \<open>KeyError k\<close> a
  missing dictionary key and \<open>AttributeError\<close> the call of \<^verbatim>\<open>.strip()\<close> on \<^verbatim>\<open>None\<close>.
\<close>

datatype error =
    ParseError string
  | MalformedTableError int string
  | ComponentCountError int string
  | IntError string
  | KeyError string
  | AttributeError

text \<open>
  Python's \<^verbatim>\<open>float\<close> is a parameter \<open>float_of\<close> of the model, and the type \<open>'f\<close> of
  floats is any type with the operations the script uses on them.
  \<open>extract_float\<close> is the body of the loop of \<^verbatim>\<open>_parse_vec4_components\<close> (lines 24 to
  27), the Float Extractor on one fragment; \<open>float_loop\<close> is the loop over the stripped
  parts, with the list \<^verbatim>\<open>floats\<close> passed along.
\<close>

definition extract_float :: "(string \<Rightarrow> 'f) \<Rightarrow> string \<Rightarrow> error + 'f" where
  "extract_float float_of p =
     (case re_search WGSL_FLOAT_RE p of
        None \<Rightarrow> Inl (ParseError p)
      | Some m \<Rightarrow> Inr (float_of (group m 0)))"

fun float_loop :: "(string \<Rightarrow> 'f) \<Rightarrow> string list \<Rightarrow> 'f list \<Rightarrow> error + 'f list" where
  "float_loop float_of [] floats = Inr floats"
| "float_loop float_of (p # ps) floats =
     (case extract_float float_of p of
        Inl e \<Rightarrow> Inl e
      | Inr x \<Rightarrow> float_loop float_of ps (floats @ [x]))"

text \<open>Line 21: \<^verbatim>\<open>parts = [p.strip() for p in vec4_src.split(",")]\<close>.\<close>

definition vec4_parts :: "string \<Rightarrow> string list" where
  "vec4_parts vec4_src = map strip (split_on CHR '','' vec4_src)"

definition parse_vec4_components :: "(string \<Rightarrow> 'f) \<Rightarrow> string \<Rightarrow> error + 'f list" where
  "parse_vec4_components float_of vec4_src = float_loop float_of (vec4_parts vec4_src) []"

section \<open>Shader Table Parser\<close>

record 'f Param1Entry =
  idx :: int
  code :: string
  name :: string
  param1 :: 'f

text \<open>A Python \<^verbatim>\<open>dict\<close> keeps its keys in insertion order: an association list with
  distinct keys, where storing under a key that is present replaces the value in place.\<close>

fun dict_set :: "'k \<Rightarrow> 'v \<Rightarrow> ('k \<times> 'v) list \<Rightarrow> ('k \<times> 'v) list" where
  "dict_set k v [] = [(k, v)]"
| "dict_set k v (p # ps) = (if fst p = k then (k, v) # ps else p # dict_set k v ps)"

definition dict_keys :: "('k \<times> 'v) list \<Rightarrow> 'k list" where
  "dict_keys d = map fst d"

definition dict_values :: "('k \<times> 'v) list \<Rightarrow> 'v list" where
  "dict_values d = map snd d"

text \<open>
  \<^verbatim>\<open>header_re = re.compile(r"^\s*//\s*(\d+)\s+([A-Z])\s+-\s+(.+?)\s*$")\<close>, used with
  \<^verbatim>\<open>header_re.match\<close>, which anchors the match at the start of the line as \<^verbatim>\<open>^\<close> does.
\<close>

definition header_re :: rx where
  "header_re =
     seqs [Star Space, lits ''//'', Star Space, Grp 1 (Plus Digit), Plus Space,
           Grp 2 (C Upper), Plus Space, C (Lit CHR ''-''), Plus Space,
           Grp 3 (PlusLazy AnyChar), Star Space, Eol]"

text \<open>\<^verbatim>\<open>re.findall(r"vec4<f32>\(([^)]*)\)", data_line)\<close>\<close>

definition vec4_re :: rx where
  "vec4_re = seqs [lits ''vec4<f32>('', Grp 1 (Star (Except CHR '')'')), C (Lit CHR '')'')]"

text \<open>The forward scan from \<open>j\<close> for the data line of a header; it returns the line
  index where it stopped and the stripped data line, if one was found.\<close>

function find_data :: "string list \<Rightarrow> nat \<Rightarrow> nat \<times> string option" where
  "find_data lines j =
     (if j < length lines then
        (let s = strip (lines ! j) in
         if s = [] then find_data lines (j + 1)
         else if startswith s ''//'' then (j, None)
         else if str_contains ''array<vec4<f32>,6>('' s then (j, Some s)
         else find_data lines (j + 1))
      else (j, None))"
  by pat_completeness auto

termination
  by (relation "measure (\<lambda>(lines, j). length lines - j)") auto

declare find_data.simps [simp del]

text \<open>Lines 71 to 80: from the data line of a header to its entry.\<close>

definition entry_of_data ::
  "(string \<Rightarrow> 'f) \<Rightarrow> int \<Rightarrow> string \<Rightarrow> string \<Rightarrow> string \<Rightarrow> error + 'f Param1Entry" where
  "entry_of_data float_of i c n data_line =
     (let vec4s = findall vec4_re data_line in
      if length vec4s < 4 then Inl (MalformedTableError i data_line)
      else
        (case parse_vec4_components float_of (vec4s ! 3) of
           Inl e \<Rightarrow> Inl e
         | Inr d3 \<Rightarrow>
             if length d3 \<noteq> 4 then Inl (ComponentCountError i (vec4s ! 3))
             else Inr \<lparr>idx = i, code = c, name = n, param1 = d3 ! 3\<rparr>))"

text \<open>The state of the main scan: the line index \<^verbatim>\<open>i\<close> and the dictionary
  \<^verbatim>\<open>entries\<close>. \<open>scan_step\<close> is one pass through the body of the \<^verbatim>\<open>while\<close> loop
  (taken when \<^verbatim>\<open>i < len(lines)\<close>), \<open>scan_loop\<close> the loop.\<close>

record 'f scan_state =
  pos :: nat
  entries :: "(int \<times> 'f Param1Entry) list"

definition scan_step :: "(string \<Rightarrow> 'f) \<Rightarrow> string list \<Rightarrow> 'f scan_state \<Rightarrow> error + 'f scan_state" where
  "scan_step float_of lines st =
     (case re_match header_re (lines ! pos st) of
        None \<Rightarrow> Inr (st\<lparr>pos := pos st + 1\<rparr>)
      | Some m \<Rightarrow>
          (case py_int (group m 1) of
             None \<Rightarrow> Inl (IntError (group m 1))
           | Some i \<Rightarrow>
               (case snd (find_data lines (pos st + 1)) of
                  None \<Rightarrow> Inr (st\<lparr>pos := pos st + 1\<rparr>)
                | Some data_line \<Rightarrow>
                    (case entry_of_data float_of i (group m 2) (group m 3) data_line of
                       Inl e \<Rightarrow> Inl e
                     | Inr e \<Rightarrow>
                         Inr \<lparr>pos = pos st + 1, entries = dict_set i e (entries st)\<rparr>))))"

lemma scan_step_pos: "scan_step float_of lines st = Inr st' \<Longrightarrow> pos st' = pos st + 1"
  by (auto simp: scan_step_def split: option.splits sum.splits)

function scan_loop ::
  "(string \<Rightarrow> 'f) \<Rightarrow> string list \<Rightarrow> 'f scan_state \<Rightarrow> error + (int \<times> 'f Param1Entry) list" where
  "scan_loop float_of lines st =
     (if pos st < length lines then
        (case scan_step float_of lines st of
           Inl e \<Rightarrow> Inl e
         | Inr st' \<Rightarrow> scan_loop float_of lines st')
      else Inr (entries st))"
  by pat_completeness auto

termination
  by (relation "measure (\<lambda>(float_of, lines, st). length lines - pos st)")
     (auto dest: scan_step_pos)

declare scan_loop.simps [simp del]

text \<open>\<^verbatim>\<open>parse_shared_wgsl_param1\<close>, on the list that \<^verbatim>\<open>readlines()\<close> returns.\<close>

definition parse_shared_wgsl_param1 ::
  "(string \<Rightarrow> 'f) \<Rightarrow> string list \<Rightarrow> error + (int \<times> 'f Param1Entry) list" where
  "parse_shared_wgsl_param1 float_of lines = scan_loop float_of lines \<lparr>pos = 0, entries = []\<rparr>"

section \<open>Sensor Classifier\<close>

definition SENSOR_NAME_TO_TYPE_ID :: "(string \<times> int) list" where
  "SENSOR_NAME_TO_TYPE_ID =
     [(''Alpha Sensor'', 22),
      (''Beta Sensor'', 23),
      (''Energy Sensor'', 24),
      (''Agent Alpha Sensor'', 34),
      (''Agent Beta Sensor'', 35),
      (''Trail Energy Sensor (alpha)'', 37),
      (''Trail Energy Sensor (beta)'', 37),
      (''Alpha Magnitude Sensor'', 38),
      (''Alpha Magnitude Sensor (var)'', 39),
      (''Beta Magnitude Sensor'', 40),
      (''Beta Magnitude Sensor (var)'', 41)]"

definition sensor_kind_from_name :: "string \<Rightarrow> string option" where
  "sensor_kind_from_name organ_name =
     (if organ_name \<in> set (dict_keys SENSOR_NAME_TO_TYPE_ID) then Some organ_name else None)"

section \<open>Cross-Reference Join\<close>

text \<open>A field of an output row holds a value, Python's \<^verbatim>\<open>None\<close> or the empty string
  \<^verbatim>\<open>""\<close>; the last two are both written as an empty CSV field.\<close>

datatype 'a cell = Val 'a | PyNone | EmptyStr

record 'f row =
  sensor_kind :: string
  organ_type_id :: int
  promoter_code :: string
  promoter_param1 :: "'f cell"
  modifier_index :: "int cell"
  modifier_code :: string
  modifier_param1 :: "'f cell"
  combined_param1 :: "'f cell"
  gain_abs :: "'f cell"
  polarity :: "int cell"
  notes_txt :: string

text \<open>A row of \<^verbatim>\<open>csv.DictReader\<close>: a dictionary from the column names of the header to
  the cells, where a cell that a short line does not have is \<^verbatim>\<open>None\<close>.\<close>

type_synonym csv_row = "string \<rightharpoonup> string option"

definition promoters :: "(string \<times> string) list" where
  "promoters =
     [(''V_Valine'', ''V''), (''M_Methionine'', ''M''), (''H_Histidine'', ''H''),
      (''Q_Glutamine'', ''Q'')]"

definition amino_param1_by_code :: "(int \<times> 'f Param1Entry) list \<Rightarrow> (string \<times> 'f) list" where
  "amino_param1_by_code tbl =
     fold (\<lambda>e d. dict_set (code e) (param1 e) d)
       (filter (\<lambda>e. 0 \<le> idx e \<and> idx e \<le> 19) (dict_values tbl)) []"

definition cell_of :: "'a option \<Rightarrow> 'a cell" where
  "cell_of v = (case v of None \<Rightarrow> PyNone | Some x \<Rightarrow> Val x)"

definition env_dye_note :: string where
  "env_dye_note = ''env_dye_sensor (gain=abs(p+m), sign=sign(p+m))''"

definition non_param1_note :: string where
  "non_param1_note =
     ''non_param1_sensor (gain not derived from promoter/modifier param1 in shader)''"

text \<open>Lines 144 to 150: the three derived fields stay \<^verbatim>\<open>None\<close> unless the sensor
  uses the param1 gain and both param1 values are present.\<close>

fun gain_fields ::
  "bool \<Rightarrow> ('f::{plus,abs,zero,ord}) option \<Rightarrow> 'f option \<Rightarrow> 'f cell \<times> 'f cell \<times> int cell" where
  "gain_fields True (Some promoter_p1) (Some modifier_p1) =
     (let combined = promoter_p1 + modifier_p1
      in (Val combined, Val (abs combined), Val (if combined \<ge> 0 then 1 else - 1)))"
| "gain_fields _ _ _ = (PyNone, PyNone, PyNone)"

text \<open>Line 130: \<^verbatim>\<open>(r.get(promoter_col) or "").strip()\<close>.\<close>

definition organ_name :: "csv_row \<Rightarrow> string \<Rightarrow> string" where
  "organ_name r promoter_col = strip (case r promoter_col of Some (Some v) \<Rightarrow> v | _ \<Rightarrow> [])"

text \<open>Lines 135 to 170: the output row of a classified cell.\<close>

definition join_row ::
  "(string \<times> ('f::{plus,abs,zero,ord})) list \<Rightarrow> string \<Rightarrow> string \<Rightarrow> int \<Rightarrow> string
     \<Rightarrow> error + 'f row" where
  "join_row amino kind promoter_cd modifier_idx modifier_cd =
     (case map_of SENSOR_NAME_TO_TYPE_ID kind of
        None \<Rightarrow> Inl (KeyError kind)
      | Some type_id \<Rightarrow>
          (let promoter_p1 = map_of amino promoter_cd;
               modifier_p1 = map_of amino modifier_cd;
               uses_param1_gain = (type_id \<in> {22, 23, 38, 39, 40, 41});
               g = gain_fields uses_param1_gain promoter_p1 modifier_p1
           in Inr \<lparr>sensor_kind = kind,
                   organ_type_id = type_id,
                   promoter_code = promoter_cd,
                   promoter_param1 = cell_of promoter_p1,
                   modifier_index = Val modifier_idx,
                   modifier_code = modifier_cd,
                   modifier_param1 = cell_of modifier_p1,
                   combined_param1 = fst g,
                   gain_abs = fst (snd g),
                   polarity = snd (snd g),
                   notes_txt = (if uses_param1_gain then env_dye_note
                                else non_param1_note)\<rparr>))"

text \<open>The body of the loop over \<^verbatim>\<open>promoters.items()\<close> (lines 129 to 170), with the
  list \<^verbatim>\<open>rows\<close> passed along; \<open>p\<close> is the pair of the column name and the promoter
  code.\<close>

definition promoter_body ::
  "(string \<times> ('f::{plus,abs,zero,ord})) list \<Rightarrow> csv_row \<Rightarrow> int \<Rightarrow> string \<Rightarrow> string \<times> string
     \<Rightarrow> 'f row list \<Rightarrow> error + 'f row list" where
  "promoter_body amino r modifier_idx modifier_cd p rows =
     (case sensor_kind_from_name (organ_name r (fst p)) of
        None \<Rightarrow> Inr rows
      | Some kind \<Rightarrow>
          (case join_row amino kind (snd p) modifier_idx modifier_cd of
             Inl e \<Rightarrow> Inl e
           | Inr d \<Rightarrow> Inr (rows @ [d])))"

fun promoter_loop ::
  "(string \<times> ('f::{plus,abs,zero,ord})) list \<Rightarrow> csv_row \<Rightarrow> int \<Rightarrow> string
     \<Rightarrow> (string \<times> string) list \<Rightarrow> 'f row list \<Rightarrow> error + 'f row list" where
  "promoter_loop amino r modifier_idx modifier_cd [] rows = Inr rows"
| "promoter_loop amino r modifier_idx modifier_cd (p # ps) rows =
     (case promoter_body amino r modifier_idx modifier_cd p rows of
        Inl e \<Rightarrow> Inl e
      | Inr rows' \<Rightarrow> promoter_loop amino r modifier_idx modifier_cd ps rows')"

text \<open>\<^verbatim>\<open>r[key].strip()\<close>: \<^verbatim>\<open>KeyError\<close> when the column is not in the header,
  \<^verbatim>\<open>AttributeError\<close> when the cell is \<^verbatim>\<open>None\<close>.\<close>

definition stripped_cell :: "csv_row \<Rightarrow> string \<Rightarrow> error + string" where
  "stripped_cell r key =
     (case r key of
        None \<Rightarrow> Inl (KeyError key)
      | Some None \<Rightarrow> Inl AttributeError
      | Some (Some v) \<Rightarrow> Inr (strip v))"

text \<open>Lines 125 and 126: the modifier index and the modifier code of a CSV row.\<close>

definition row_modifier :: "csv_row \<Rightarrow> error + int \<times> string" where
  "row_modifier r =
     (case stripped_cell r ''Modifier'' of
        Inl e \<Rightarrow> Inl e
      | Inr s \<Rightarrow>
          (case py_int s of
             None \<Rightarrow> Inl (IntError s)
           | Some modifier_idx \<Rightarrow>
               (case stripped_cell r ''Modifier_AA'' of
                  Inl e \<Rightarrow> Inl e
                | Inr modifier_cd \<Rightarrow> Inr (modifier_idx, modifier_cd))))"

text \<open>The body of the loop over the CSV rows (lines 125 to 170).\<close>

definition row_body ::
  "(string \<times> ('f::{plus,abs,zero,ord})) list \<Rightarrow> csv_row \<Rightarrow> 'f row list \<Rightarrow> error + 'f row list" where
  "row_body amino r rows =
     (case row_modifier r of
        Inl e \<Rightarrow> Inl e
      | Inr m \<Rightarrow> promoter_loop amino r (fst m) (snd m) promoters rows)"

fun csv_loop ::
  "(string \<times> ('f::{plus,abs,zero,ord})) list \<Rightarrow> csv_row list \<Rightarrow> 'f row list \<Rightarrow> error + 'f row list" where
  "csv_loop amino [] rows = Inr rows"
| "csv_loop amino (r # rs) rows =
     (case row_body amino r rows of
        Inl e \<Rightarrow> Inl e
      | Inr rows' \<Rightarrow> csv_loop amino rs rows')"

definition energy_row :: "'f row" where
  "energy_row =
     \<lparr>sensor_kind = ''Energy Sensor'',
      organ_type_id = 24,
      promoter_code = [],
      promoter_param1 = EmptyStr,
      modifier_index = EmptyStr,
      modifier_code = [],
      modifier_param1 = EmptyStr,
      combined_param1 = EmptyStr,
      gain_abs = EmptyStr,
      polarity = EmptyStr,
      notes_txt = ''energy_sensor (uses energy->signal mapping; not promoter/modifier param1 gain)''\<rparr>"

text \<open>\<^verbatim>\<open>sort_key\<close> of the script, and \<^verbatim>\<open>rows.sort(key=sort_key)\<close>: Python's sort is
  stable, as \<^const>\<open>sort_key\<close> is; strings compare by code points, tuples
  lexicographically.\<close>

definition sort_key_row :: "'f row \<Rightarrow> string \<times> string \<times> int" where
  "sort_key_row d =
     (sensor_kind d, promoter_code d,
      (case modifier_index d of Val n \<Rightarrow> n | _ \<Rightarrow> 999))"

text \<open>\<^verbatim>\<open>generate_table\<close>, on the lines of the shader file and the rows of the CSV
  reader.\<close>

definition generate_table ::
  "(string \<Rightarrow> ('f::{plus,abs,zero,ord})) \<Rightarrow> string list \<Rightarrow> csv_row list \<Rightarrow> error + 'f row list" where
  "generate_table float_of lines csv_rows =
     (case parse_shared_wgsl_param1 float_of lines of
        Inl e \<Rightarrow> Inl e
      | Inr tbl \<Rightarrow>
          (case csv_loop (amino_param1_by_code tbl) csv_rows [] of
             Inl e \<Rightarrow> Inl e
           | Inr rows \<Rightarrow>
               Inr (sort_key sort_key_row
                      (if 24 \<in> set (dict_keys tbl) then rows @ [energy_row] else rows))))"

section \<open>A reading of float literals for the worked examples\<close>

text \<open>The theorems below hold for every \<open>float_of\<close>. The worked examples need one: they
  read a literal as the rational number it denotes, which Python's \<^verbatim>\<open>float\<close> rounds
  to the nearest double.\<close>

definition exact_float :: "string \<Rightarrow> rat" where
  "exact_float s =
     (let neg = (s \<noteq> [] \<and> hd s = CHR ''-'');
          r0 = (if s \<noteq> [] \<and> hd s \<in> set ''-+'' then tl s else s);
          ip = takeWhile is_digit r0;
          r1 = dropWhile is_digit r0;
          fp = (if r1 \<noteq> [] \<and> hd r1 = CHR ''.'' then takeWhile is_digit (tl r1) else []);
          r2 = (if r1 \<noteq> [] \<and> hd r1 = CHR ''.'' then dropWhile is_digit (tl r1) else r1);
          ex = (if r2 = [] then 0 else (case py_int (tl r2) of Some e \<Rightarrow> e | None \<Rightarrow> 0));
          mant = of_nat (dec_val (ip @ fp)) / 10 ^ length fp;
          v = (if ex \<ge> 0 then mant * 10 ^ nat ex else mant / 10 ^ nat (- ex))
      in if neg then - v else v)"

section \<open>Notions used in the statements\<close>

text \<open>The rows a CSV row contributes, in the order of the promoter columns; the rows of
  all CSV rows; and the list that is sorted at the end.\<close>

definition joined :: "(string \<times> ('f::{plus,abs,zero,ord})) list \<Rightarrow> csv_row \<Rightarrow> int \<Rightarrow> string \<Rightarrow> (string \<times> string) list \<Rightarrow> 'f row list" where
  "joined amino r mi mc ps =
     concat (map (\<lambda>p. case sensor_kind_from_name (organ_name r (fst p)) of
                         None \<Rightarrow> []
                       | Some k \<Rightarrow> (case join_row amino k (snd p) mi mc of Inr d \<Rightarrow> [d] | Inl e \<Rightarrow> [])) ps)"

definition table_rows :: "(string \<times> ('f::{plus,abs,zero,ord})) list \<Rightarrow> csv_row list \<Rightarrow> 'f row list" where
  "table_rows amino csv_rows =
     concat (map (\<lambda>r. case row_modifier r of
                          Inl e \<Rightarrow> []
                        | Inr m \<Rightarrow> joined amino r (fst m) (snd m) promoters) csv_rows)"

definition final_rows :: "(int \<times> ('f::{plus,abs,zero,ord}) Param1Entry) list \<Rightarrow> csv_row list \<Rightarrow> 'f row list" where
  "final_rows tbl csv_rows =
     table_rows (amino_param1_by_code tbl) csv_rows
       @ (if 24 \<in> set (dict_keys tbl) then [energy_row] else [])"

text \<open>A promoter cell is blank when the column is not in the row, when the cell is
  \<^verbatim>\<open>None\<close>, or when its text is empty or all whitespace.\<close>

definition blank_cell :: "csv_row \<Rightarrow> string \<Rightarrow> bool" where
  "blank_cell r col =
     (case r col of None \<Rightarrow> True | Some None \<Rightarrow> True | Some (Some v) \<Rightarrow> list_all is_space v)"

text \<open>A join field is empty when it holds \<^verbatim>\<open>None\<close> or the empty string.\<close>

definition empty_cell :: "'a cell \<Rightarrow> bool" where
  "empty_cell c = (case c of Val x \<Rightarrow> False | _ \<Rightarrow> True)"

definition join_fields_empty :: "'f row \<Rightarrow> bool" where
  "join_fields_empty d =
     (promoter_code d = [] \<and> empty_cell (promoter_param1 d) \<and> empty_cell (modifier_index d)
      \<and> modifier_code d = [] \<and> empty_cell (modifier_param1 d)
      \<and> empty_cell (combined_param1 d) \<and> empty_cell (gain_abs d) \<and> empty_cell (polarity d))"

text \<open>The lines that the forward search meets, by what it does with them: it passes
  over a blank line and over a line that is neither a comment nor a data line, it gives
  up at a comment line, and it takes a data line.\<close>

definition skipped_line :: "string \<Rightarrow> bool" where
  "skipped_line l =
     (strip l = [] \<or> (\<not> startswith (strip l) ''//'' \<and> \<not> str_contains ''array<vec4<f32>,6>('' (strip l)))"

definition comment_line :: "string \<Rightarrow> bool" where
  "comment_line l = (strip l \<noteq> [] \<and> startswith (strip l) ''//'')"

definition data_line :: "string \<Rightarrow> bool" where
  "data_line l =
     (strip l \<noteq> [] \<and> \<not> startswith (strip l) ''//'' \<and> str_contains ''array<vec4<f32>,6>('' (strip l))"

definition EXP_RE :: rx where
  "EXP_RE = Seq (C (OneOf ''eE'')) (Seq (Opt (C (OneOf ''-+''))) (Plus Digit))"

text \<open>A numeric literal, as the Float Extractor's contract words it: an optional sign,
  digits with an optional decimal point (at least one digit, before or after the point, so
  that \<open>1.\<close>, \<open>.5\<close> and \<open>1.e5\<close> are literals as they are for the shader language and for
  Python's \<^verbatim>\<open>float\<close>), an optional exponent.\<close>

definition is_sign :: "string \<Rightarrow> bool" where
  "is_sign s = (s = [] \<or> s = ''+'' \<or> s = ''-'')"

definition is_mantissa :: "string \<Rightarrow> bool" where
  "is_mantissa m =
     (\<exists>ds fs. (\<forall>c\<in>set ds. is_digit c) \<and> (\<forall>c\<in>set fs. is_digit c) \<and> ds @ fs \<noteq> []
        \<and> (m = ds @ fs \<or> m = ds @ ''.'' @ fs))"

definition is_exponent :: "string \<Rightarrow> bool" where
  "is_exponent x =
     (x = [] \<or> (\<exists>e sg ds. x = e # sg @ ds \<and> e \<in> set ''eE'' \<and> is_sign sg \<and> ds \<noteq> []
                   \<and> (\<forall>c\<in>set ds. is_digit c)))"

definition numeric_literal :: "string \<Rightarrow> bool" where
  "numeric_literal l =
     (\<exists>sg m x. l = sg @ m @ x \<and> is_sign sg \<and> is_mantissa m \<and> is_exponent x)"

text \<open>The narrower language of \<^verbatim>\<open>WGSL_FLOAT_RE\<close>, read off the pattern (sign, digits,
  optional point, one digit or more, optional exponent): the mantissa ends in a digit, so a
  decimal point is always followed by one.\<close>

definition pattern_mantissa :: "string \<Rightarrow> bool" where
  "pattern_mantissa m =
     (\<exists>ds fs. (\<forall>c\<in>set ds. is_digit c) \<and> (\<forall>c\<in>set fs. is_digit c) \<and> fs \<noteq> []
        \<and> (m = ds @ fs \<or> m = ds @ ''.'' @ fs))"

definition pattern_literal :: "string \<Rightarrow> bool" where
  "pattern_literal l =
     (\<exists>sg m x. l = sg @ m @ x \<and> is_sign sg \<and> pattern_mantissa m \<and> is_exponent x)"

text \<open>Text before a literal that cannot start a match, and text after a literal of the
  pattern that cannot prolong the match: it does not start with a digit or an exponent
  letter, nor with a point that a digit follows.\<close>

definition plain_text :: "string \<Rightarrow> bool" where
  "plain_text pre = (\<forall>c\<in>set pre. \<not> is_digit c \<and> c \<notin> set ''-+.'')"

definition literal_end :: "string \<Rightarrow> bool" where
  "literal_end post =
     (post = [] \<or> (\<not> is_digit (hd post) \<and> hd post \<notin> set ''eE''
        \<and> (hd post = CHR ''.'' \<longrightarrow> tl post = [] \<or> \<not> is_digit (hd (tl post)))))"

section \<open>Worked examples\<close>

text \<open>The input of the worked examples: a shader table with the amino acids V (index 17)
  and H (index 8) and the organ of index 24, and a CSV table of two rows.\<close>

definition example_lines :: "string list" where
  "example_lines =
     [''// 17 V - Valine\<newline>'',
      ''  array<vec4<f32>,6>(vec4<f32>(0), vec4<f32>(0), vec4<f32>(0), vec4<f32>(0.0, 0.3, -0.73, -0.23)),\<newline>'',
      ''// 8 H - Histidine\<newline>'',
      ''\<newline>'',
      ''  array<vec4<f32>,6>(vec4<f32>(0), vec4<f32>(0), vec4<f32>(0), vec4<f32>(0, 0, 0, 0.1)),\<newline>'',
      ''// 24 E - Energy Sensor\<newline>'',
      ''  array<vec4<f32>,6>(vec4<f32>(0), vec4<f32>(0), vec4<f32>(0), vec4<f32>(0, 0, 0, 1e1)),\<newline>'']"

definition example_tbl :: "(int \<times> rat Param1Entry) list" where
  "example_tbl =
     [(17, \<lparr>idx = 17, code = ''V'', name = ''Valine'', param1 = - (23 / 100)\<rparr>),
      (8, \<lparr>idx = 8, code = ''H'', name = ''Histidine'', param1 = 1 / 10\<rparr>),
      (24, \<lparr>idx = 24, code = ''E'', name = ''Energy Sensor'', param1 = 10\<rparr>)]"

definition example_csv :: "csv_row list" where
  "example_csv =
     [[''Modifier'' \<mapsto> Some ''5'', ''Modifier_AA'' \<mapsto> Some ''H'',
       ''V_Valine'' \<mapsto> Some ''Alpha Sensor'', ''M_Methionine'' \<mapsto> Some ''Mouth'',
       ''H_Histidine'' \<mapsto> Some '' '', ''Q_Glutamine'' \<mapsto> Some ''Energy Sensor''],
      [''Modifier'' \<mapsto> Some '' 3 '', ''Modifier_AA'' \<mapsto> Some ''K'',
       ''V_Valine'' \<mapsto> Some ''Agent Alpha Sensor'', ''M_Methionine'' \<mapsto> None,
       ''H_Histidine'' \<mapsto> Some ''Beta Sensor'']]"

definition example_out :: "rat row list" where
  "example_out =
     [\<lparr>sensor_kind = ''Agent Alpha Sensor'', organ_type_id = 34, promoter_code = ''V'',
       promoter_param1 = Val (- (23 / 100)), modifier_index = Val 3, modifier_code = ''K'',
       modifier_param1 = PyNone, combined_param1 = PyNone, gain_abs = PyNone,
       polarity = PyNone, notes_txt = non_param1_note\<rparr>,
      \<lparr>sensor_kind = ''Alpha Sensor'', organ_type_id = 22, promoter_code = ''V'',
       promoter_param1 = Val (- (23 / 100)), modifier_index = Val 5, modifier_code = ''H'',
       modifier_param1 = Val (1 / 10), combined_param1 = Val (- (13 / 100)),
       gain_abs = Val (13 / 100), polarity = Val (- 1), notes_txt = env_dye_note\<rparr>,
      \<lparr>sensor_kind = ''Beta Sensor'', organ_type_id = 23, promoter_code = ''H'',
       promoter_param1 = Val (1 / 10), modifier_index = Val 3, modifier_code = ''K'',
       modifier_param1 = PyNone, combined_param1 = PyNone, gain_abs = PyNone,
       polarity = PyNone, notes_txt = env_dye_note\<rparr>,
      energy_row,
      \<lparr>sensor_kind = ''Energy Sensor'', organ_type_id = 24, promoter_code = ''Q'',
       promoter_param1 = PyNone, modifier_index = Val 5, modifier_code = ''H'',
       modifier_param1 = Val (1 / 10), combined_param1 = PyNone, gain_abs = PyNone,
       polarity = PyNone, notes_txt = non_param1_note\<rparr>]"

text \<open>A CSV table whose promoter cells are all blank.\<close>

definition blank_csv :: "csv_row list" where
  "blank_csv =
     [[''Modifier'' \<mapsto> Some ''7'', ''Modifier_AA'' \<mapsto> Some ''A''],
      [''Modifier'' \<mapsto> Some ''8'', ''Modifier_AA'' \<mapsto> Some ''C'',
       ''V_Valine'' \<mapsto> Some [], ''M_Methionine'' \<mapsto> Some ''  '', ''H_Histidine'' \<mapsto> None]]"

text \<open>A CSV table whose second row has a \<^verbatim>\<open>Modifier\<close> cell that is no integer.\<close>

definition bad_csv :: "csv_row list" where
  "bad_csv =
     [[''Modifier'' \<mapsto> Some ''5'', ''Modifier_AA'' \<mapsto> Some ''H'',
       ''V_Valine'' \<mapsto> Some ''Alpha Sensor''],
      [''Modifier'' \<mapsto> Some ''1.5'', ''Modifier_AA'' \<mapsto> Some ''H'',
       ''V_Valine'' \<mapsto> Some ''Mouth'']]"

text \<open>A shader table whose only record is named "Energy Sensor" and has index 5.\<close>

definition named_energy_lines :: "string list" where
  "named_energy_lines =
     [''// 5 E - Energy Sensor\<newline>'',
      ''  array<vec4<f32>,6>(vec4<f32>(0), vec4<f32>(0), vec4<f32>(0), vec4<f32>(0, 0, 0, 1)),\<newline>'']"

text \<open>A shader table with a header that is followed by another header.\<close>

definition abandoned_lines :: "string list" where
  "abandoned_lines =
     [''// 1 A - Alanine\<newline>'',
      ''\<newline>'',
      ''  // 2 C - Cysteine\<newline>'',
      ''const x = 1;\<newline>'',
      ''  array<vec4<f32>,6>(vec4<f32>(0), vec4<f32>(0), vec4<f32>(0), vec4<f32>(0, 0, 0, 0.5)),\<newline>'']"




text \<open>A data line whose designated component is written with a point before its
  exponent.\<close>

definition trailing_point_lines :: "string list" where
  "trailing_point_lines =
     [''// 17 V - Valine\<newline>'',
      ''array<vec4<f32>,6>(vec4<f32>(0), vec4<f32>(0), vec4<f32>(0), vec4<f32>(0.0, 0.3, -0.73, 1.e5))\<newline>'']"

lemma example_parse: "parse_shared_wgsl_param1 exact_float example_lines = Inr example_tbl"
  unfolding example_lines_def example_tbl_def by code_simp

lemma example_run: "generate_table exact_float example_lines example_csv = Inr example_out"
  unfolding example_lines_def example_csv_def example_out_def by code_simp

section \<open>The structure of the join\<close>

lemma sensor_kind_Some:
  "sensor_kind_from_name n = Some k \<Longrightarrow> k = n \<and> map_of SENSOR_NAME_TO_TYPE_ID k \<noteq> None"
  by (auto simp: sensor_kind_from_name_def dict_keys_def map_of_eq_None_iff split: if_splits)

lemma join_row_total:
  "sensor_kind_from_name n = Some k \<Longrightarrow> \<exists>d. join_row amino k pc mi mc = Inr d"
  by (auto simp: join_row_def Let_def dest!: sensor_kind_Some)

lemma promoter_body_total:
  "\<exists>rows'. promoter_body amino r mi mc p rows = Inr rows'"
proof (cases "sensor_kind_from_name (organ_name r (fst p))")
  case None
  then show ?thesis by (simp add: promoter_body_def)
next
  case (Some k)
  from join_row_total [OF this] obtain d where "join_row amino k (snd p) mi mc = Inr d" by blast
  with Some show ?thesis by (simp add: promoter_body_def)
qed

text \<open>The loop over the promoter columns appends the rows that \<open>joined\<close> lists.\<close>

lemma promoter_loop_joined:
  "promoter_loop amino r mi mc ps rows = Inr (rows @ joined amino r mi mc ps)"
proof (induction ps arbitrary: rows)
  case Nil
  then show ?case by (simp add: joined_def)
next
  case (Cons p ps)
  show ?case
  proof (cases "sensor_kind_from_name (organ_name r (fst p))")
    case None
    then show ?thesis using Cons.IH by (simp add: promoter_body_def joined_def)
  next
    case (Some k)
    from join_row_total [OF this] obtain d where "join_row amino k (snd p) mi mc = Inr d" by blast
    with Some show ?thesis using Cons.IH by (simp add: promoter_body_def joined_def)
  qed
qed

lemma csv_loop_ok:
  "\<forall>r\<in>set rs. \<not> isl (row_modifier r) \<Longrightarrow>
   csv_loop amino rs rows = Inr (rows @ table_rows amino rs)"
proof (induction rs arbitrary: rows)
  case Nil
  then show ?case by (simp add: table_rows_def)
next
  case (Cons r rs)
  then obtain m where m: "row_modifier r = Inr m" by (cases "row_modifier r") auto
  from Cons have "csv_loop amino rs (rows @ joined amino r (fst m) (snd m) promoters)
     = Inr ((rows @ joined amino r (fst m) (snd m) promoters) @ table_rows amino rs)"
    by simp
  with m show ?case by (simp add: row_body_def promoter_loop_joined table_rows_def)
qed

lemma csv_loop_bad:
  "r \<in> set rs \<Longrightarrow> isl (row_modifier r) \<Longrightarrow> isl (csv_loop amino rs rows)"
proof (induction rs arbitrary: rows)
  case Nil
  then show ?case by simp
next
  case (Cons a rs)
  show ?case
  proof (cases "row_modifier a")
    case (Inl e)
    then show ?thesis by (simp add: row_body_def)
  next
    case (Inr m)
    with Cons.prems have "r \<in> set rs" by auto
    from Cons.IH [OF this Cons.prems(2)] Inr show ?thesis
      by (simp add: row_body_def promoter_loop_joined)
  qed
qed

lemma csv_loop_Inr:
  assumes "csv_loop amino rs rows = Inr out"
  shows "(\<forall>r\<in>set rs. \<not> isl (row_modifier r)) \<and> out = rows @ table_rows amino rs"
proof -
  have ok: "\<forall>r\<in>set rs. \<not> isl (row_modifier r)"
  proof (rule ccontr)
    assume "\<not> ?thesis"
    then obtain r where "r \<in> set rs" "isl (row_modifier r)" by blast
    from csv_loop_bad [OF this, of amino rows] assms show False by simp
  qed
  with csv_loop_ok [OF ok, of amino rows] assms show ?thesis by simp
qed

lemma generate_table_Inr:
  assumes "generate_table float_of lines csv_rows = Inr out"
  shows "\<exists>tbl. parse_shared_wgsl_param1 float_of lines = Inr tbl
           \<and> (\<forall>r\<in>set csv_rows. \<not> isl (row_modifier r))
           \<and> out = sort_key sort_key_row (final_rows tbl csv_rows)"
proof -
  from assms obtain tbl where t: "parse_shared_wgsl_param1 float_of lines = Inr tbl"
    by (auto simp: generate_table_def split: sum.splits)
  with assms obtain rows where
    c: "csv_loop (amino_param1_by_code tbl) csv_rows [] = Inr rows"
    by (auto simp: generate_table_def split: sum.splits)
  from csv_loop_Inr [OF c] t c assms show ?thesis
    by (auto simp: generate_table_def final_rows_def)
qed

lemma generate_table_ok:
  assumes "parse_shared_wgsl_param1 float_of lines = Inr tbl"
    and "\<forall>r\<in>set csv_rows. \<not> isl (row_modifier r)"
  shows "generate_table float_of lines csv_rows
           = Inr (sort_key sort_key_row (final_rows tbl csv_rows))"
  using assms csv_loop_ok [OF assms(2), of "amino_param1_by_code tbl" "[]"]
  by (simp add: generate_table_def final_rows_def)

lemma length_joined:
  "length (joined amino r mi mc ps)
     = length (filter (\<lambda>p. sensor_kind_from_name (organ_name r (fst p)) \<noteq> None) ps)"
proof (induction ps)
  case Nil
  then show ?case by (simp add: joined_def)
next
  case (Cons p ps)
  show ?case
  proof (cases "sensor_kind_from_name (organ_name r (fst p))")
    case None
    with Cons show ?thesis by (simp add: joined_def)
  next
    case (Some k)
    from join_row_total [OF this] obtain d where "join_row amino k (snd p) mi mc = Inr d" by blast
    with Some Cons show ?thesis by (simp add: joined_def)
  qed
qed

lemma length_table_rows:
  "\<forall>r\<in>set rs. \<not> isl (row_modifier r) \<Longrightarrow>
   length (table_rows amino rs)
     = length (filter (\<lambda>(r, p). sensor_kind_from_name (organ_name r (fst p)) \<noteq> None)
                 (List.product rs promoters))"
proof (induction rs)
  case Nil
  then show ?case by (simp add: table_rows_def)
next
  case (Cons r rs)
  then obtain m where m: "row_modifier r = Inr m" by (cases "row_modifier r") auto
  have "table_rows amino (r # rs) = joined amino r (fst m) (snd m) promoters @ table_rows amino rs"
    using m by (simp add: table_rows_def)
  with Cons show ?case by (simp add: length_joined filter_map o_def)
qed

section \<open>Row count\<close>

text \<open>
  Claim C7. When the run succeeds, the number of rows of the generated table is the number
  of pairs of a CSV row and a promoter column whose organ name the Sensor Classifier
  accepts, plus one when index 24 is a key of the parsed shader table (the Energy Sensor
  row) and plus zero otherwise; a pair that is not classified adds no row.
\<close>

theorem row_count:
  assumes "generate_table float_of lines csv_rows = Inr out"
    and "parse_shared_wgsl_param1 float_of lines = Inr tbl"
  shows "length out
     = length (filter (\<lambda>(r, p). sensor_kind_from_name (organ_name r (fst p)) \<noteq> None)
                 (List.product csv_rows promoters))
       + (if 24 \<in> set (dict_keys tbl) then 1 else 0)"
proof -
  from generate_table_Inr [OF assms(1)] assms(2)
  have ok: "\<forall>r\<in>set csv_rows. \<not> isl (row_modifier r)"
    and out: "out = sort_key sort_key_row (final_rows tbl csv_rows)" by auto
  show ?thesis unfolding out by (simp add: final_rows_def length_table_rows [OF ok])
qed

theorem row_count_witness:
  "generate_table exact_float example_lines example_csv = Inr example_out
   \<and> parse_shared_wgsl_param1 exact_float example_lines = Inr example_tbl
   \<and> length example_out
       = length (filter (\<lambda>(r, p). sensor_kind_from_name (organ_name r (fst p)) \<noteq> None)
                   (List.product example_csv promoters))
         + (if 24 \<in> set (dict_keys example_tbl) then 1 else 0)
   \<and> length example_out = 5"
proof -
  note c = row_count [OF example_run example_parse]
  have "length example_out = 5" by (simp add: example_out_def)
  with example_run example_parse c show ?thesis by blast
qed

section \<open>The rows of the table\<close>

lemma map_of_dict_set: "map_of (dict_set k v d) = (map_of d)(k \<mapsto> v)"
  by (induction d) (auto simp: fun_eq_iff)

lemma map_of_fold_dict_set:
  "map_of (fold (\<lambda>e d. dict_set (f e) (g e) d) es d0) c = Some v \<Longrightarrow>
   (\<exists>e\<in>set es. f e = c \<and> g e = v) \<or> map_of d0 c = Some v"
proof (induction es arbitrary: d0)
  case Nil
  then show ?case by simp
next
  case (Cons e es)
  from Cons.IH [of "dict_set (f e) (g e) d0"] Cons.prems
  show ?case by (auto simp: map_of_dict_set split: if_splits)
qed

lemma amino_param1_by_code_Some:
  assumes "map_of (amino_param1_by_code tbl) c = Some v"
  shows "\<exists>e\<in>set (dict_values tbl). code e = c \<and> param1 e = v \<and> 0 \<le> idx e \<and> idx e \<le> 19"
  using map_of_fold_dict_set [OF assms [unfolded amino_param1_by_code_def]] by auto

lemma join_row_eq:
  "map_of SENSOR_NAME_TO_TYPE_ID kind = Some tid \<Longrightarrow>
   join_row amino kind pc mi mc =
     Inr \<lparr>sensor_kind = kind, organ_type_id = tid, promoter_code = pc,
          promoter_param1 = cell_of (map_of amino pc), modifier_index = Val mi,
          modifier_code = mc, modifier_param1 = cell_of (map_of amino mc),
          combined_param1 =
            fst (gain_fields (tid \<in> {22, 23, 38, 39, 40, 41}) (map_of amino pc) (map_of amino mc)),
          gain_abs =
            fst (snd (gain_fields (tid \<in> {22, 23, 38, 39, 40, 41}) (map_of amino pc) (map_of amino mc))),
          polarity =
            snd (snd (gain_fields (tid \<in> {22, 23, 38, 39, 40, 41}) (map_of amino pc) (map_of amino mc))),
          notes_txt = (if tid \<in> {22, 23, 38, 39, 40, 41} then env_dye_note else non_param1_note)\<rparr>"
  by (simp add: join_row_def Let_def)

lemma joined_mem:
  "p \<in> set ps \<Longrightarrow> sensor_kind_from_name (organ_name r (fst p)) = Some k \<Longrightarrow>
   join_row amino k (snd p) mi mc = Inr d \<Longrightarrow> d \<in> set (joined amino r mi mc ps)"
  by (force simp: joined_def)

lemma table_rows_mem:
  "r \<in> set rs \<Longrightarrow> row_modifier r = Inr (mi, mc) \<Longrightarrow>
   d \<in> set (joined amino r mi mc promoters) \<Longrightarrow> d \<in> set (table_rows amino rs)"
  by (force simp: table_rows_def)

lemma joined_origin:
  assumes "d \<in> set (joined amino r mi mc ps)"
  shows "\<exists>p\<in>set ps. sensor_kind_from_name (organ_name r (fst p)) = Some (sensor_kind d)
           \<and> join_row amino (sensor_kind d) (snd p) mi mc = Inr d"
proof -
  from assms obtain p where p: "p \<in> set ps"
    and "d \<in> set (case sensor_kind_from_name (organ_name r (fst p)) of
                     None \<Rightarrow> []
                   | Some k \<Rightarrow> (case join_row amino k (snd p) mi mc of Inr d \<Rightarrow> [d] | Inl e \<Rightarrow> []))"
    unfolding joined_def by auto
  then obtain k where k: "sensor_kind_from_name (organ_name r (fst p)) = Some k"
    and d: "join_row amino k (snd p) mi mc = Inr d"
    by (cases "sensor_kind_from_name (organ_name r (fst p))";
        cases "join_row amino (the (sensor_kind_from_name (organ_name r (fst p)))) (snd p) mi mc")
       auto
  from d have "sensor_kind d = k" by (auto simp: join_row_def Let_def split: option.splits)
  with p k d show ?thesis by auto
qed

lemma table_rows_origin:
  assumes "d \<in> set (table_rows amino rs)"
  shows "\<exists>r\<in>set rs. \<exists>mi mc. row_modifier r = Inr (mi, mc) \<and> d \<in> set (joined amino r mi mc promoters)"
  using assms by (auto simp: table_rows_def split: sum.splits) (metis prod.collapse)

lemma set_generate_table:
  assumes "generate_table float_of lines csv_rows = Inr out"
    and "parse_shared_wgsl_param1 float_of lines = Inr tbl"
  shows "set out = set (final_rows tbl csv_rows)"
  using generate_table_Inr [OF assms(1)] assms(2) by auto

lemma final_rows_mem:
  assumes "r \<in> set csv_rows" and "p \<in> set promoters"
    and "row_modifier r = Inr (mi, mc)"
    and "sensor_kind_from_name (organ_name r (fst p)) = Some kind"
    and "join_row (amino_param1_by_code tbl) kind (snd p) mi mc = Inr d"
  shows "d \<in> set (final_rows tbl csv_rows)"
  using table_rows_mem [OF assms(1,3) joined_mem [OF assms(2,4,5)]]
  by (simp add: final_rows_def)

lemma gain_fields_empty:
  "\<not> b \<or> x = None \<or> y = None \<Longrightarrow> gain_fields b x y = (PyNone, PyNone, PyNone)"
  by (cases b; cases x; cases y) auto

subsection \<open>Gain and polarity\<close>

text \<open>
  Claim C3. For a CSV row and a promoter column whose organ name is classified, when the
  organ-type id is one of 22, 23, 38, 39, 40, 41 and the promoter code and the modifier
  code both have a param1 value among the entries of index 0 to 19, the output has the row
  whose combined value is the sum of the two param1 values, whose gain is the absolute
  value of the sum and whose polarity is 1 when the sum is at least 0 and -1 otherwise.
\<close>

theorem gain_polarity:
  fixes float_of :: "string \<Rightarrow> 'f::{plus,abs,zero,ord}"
  assumes "generate_table float_of lines csv_rows = Inr out"
    and "parse_shared_wgsl_param1 float_of lines = Inr tbl"
    and "r \<in> set csv_rows" and "(col, pc) \<in> set promoters"
    and "row_modifier r = Inr (mi, mc)"
    and "sensor_kind_from_name (organ_name r col) = Some kind"
    and "map_of SENSOR_NAME_TO_TYPE_ID kind = Some tid"
    and "tid \<in> {22, 23, 38, 39, 40, 41}"
    and "map_of (amino_param1_by_code tbl) pc = Some pp"
    and "map_of (amino_param1_by_code tbl) mc = Some mp"
  shows "\<lparr>sensor_kind = kind, organ_type_id = tid, promoter_code = pc,
           promoter_param1 = Val pp, modifier_index = Val mi, modifier_code = mc,
           modifier_param1 = Val mp, combined_param1 = Val (pp + mp),
           gain_abs = Val (abs (pp + mp)),
           polarity = Val (if pp + mp \<ge> 0 then 1 else - 1),
           notes_txt = env_dye_note\<rparr> \<in> set out
         \<and> (\<exists>e\<in>set (dict_values tbl). code e = pc \<and> param1 e = pp \<and> 0 \<le> idx e \<and> idx e \<le> 19)
         \<and> (\<exists>e\<in>set (dict_values tbl). code e = mc \<and> param1 e = mp \<and> 0 \<le> idx e \<and> idx e \<le> 19)"
proof -
  have "join_row (amino_param1_by_code tbl) kind (snd (col, pc)) mi mc =
     Inr \<lparr>sensor_kind = kind, organ_type_id = tid, promoter_code = pc,
           promoter_param1 = Val pp, modifier_index = Val mi, modifier_code = mc,
           modifier_param1 = Val mp, combined_param1 = Val (pp + mp),
           gain_abs = Val (abs (pp + mp)),
           polarity = Val (if pp + mp \<ge> 0 then 1 else - 1),
           notes_txt = env_dye_note\<rparr>"
    using assms(8,9,10) by (simp add: join_row_eq [OF assms(7)] cell_of_def Let_def)
  from final_rows_mem [OF assms(3,4,5) _ this] assms(6)
  have "\<lparr>sensor_kind = kind, organ_type_id = tid, promoter_code = pc,
           promoter_param1 = Val pp, modifier_index = Val mi, modifier_code = mc,
           modifier_param1 = Val mp, combined_param1 = Val (pp + mp),
           gain_abs = Val (abs (pp + mp)),
           polarity = Val (if pp + mp \<ge> 0 then 1 else - 1),
           notes_txt = env_dye_note\<rparr> \<in> set (final_rows tbl csv_rows)" by simp
  with set_generate_table [OF assms(1,2)] amino_param1_by_code_Some [OF assms(9)]
    amino_param1_by_code_Some [OF assms(10)]
  show ?thesis by simp
qed

theorem gain_polarity_witness:
  "\<lparr>sensor_kind = ''Alpha Sensor'', organ_type_id = 22, promoter_code = ''V'',
     promoter_param1 = Val (- (23 / 100)), modifier_index = Val 5, modifier_code = ''H'',
     modifier_param1 = Val (1 / 10), combined_param1 = Val (- (13 / 100)),
     gain_abs = Val (13 / 100), polarity = Val (- 1),
     notes_txt = env_dye_note\<rparr> \<in> set example_out
   \<and> (\<exists>e\<in>set (dict_values example_tbl).
         code e = ''V'' \<and> param1 e = - (23 / 100) \<and> 0 \<le> idx e \<and> idx e \<le> 19)
   \<and> (\<exists>e\<in>set (dict_values example_tbl).
         code e = ''H'' \<and> param1 e = 1 / 10 \<and> 0 \<le> idx e \<and> idx e \<le> 19)"
proof -
  have r: "example_csv ! 0 \<in> set example_csv" by (simp add: example_csv_def)
  have p: "(''V_Valine'', ''V'') \<in> set promoters" by (simp add: promoters_def)
  have m: "row_modifier (example_csv ! 0) = Inr (5, ''H'')"
    unfolding example_csv_def by code_simp
  have k: "sensor_kind_from_name (organ_name (example_csv ! 0) ''V_Valine'') = Some ''Alpha Sensor''"
    unfolding example_csv_def by code_simp
  have t: "map_of SENSOR_NAME_TO_TYPE_ID ''Alpha Sensor'' = Some 22" by code_simp
  have a: "(22::int) \<in> {22, 23, 38, 39, 40, 41}" by simp
  have pp: "map_of (amino_param1_by_code example_tbl) ''V'' = Some (- (23 / 100))"
    unfolding example_tbl_def by code_simp
  have mp: "map_of (amino_param1_by_code example_tbl) ''H'' = Some (1 / 10)"
    unfolding example_tbl_def by code_simp
  from gain_polarity [OF example_run example_parse r p m k t a pp mp]
  show ?thesis by simp
qed

subsection \<open>Rows without a param1 gain\<close>

text \<open>
  Claim C2, as amended. For a CSV row and a promoter column whose organ name is classified,
  when the organ-type id is not one of 22, 23, 38, 39, 40, 41, or the promoter has no
  param1, or the modifier has no param1, the fields combined, gain and polarity of the
  output row are empty. The note is the "non_param1_sensor" text exactly when the id is
  not in the list; a row whose id is in the list keeps the "env_dye_sensor" note also when
  a param1 value is absent.
\<close>

theorem derived_fields_empty:
  fixes float_of :: "string \<Rightarrow> 'f::{plus,abs,zero,ord}"
  assumes "generate_table float_of lines csv_rows = Inr out"
    and "parse_shared_wgsl_param1 float_of lines = Inr tbl"
    and "r \<in> set csv_rows" and "(col, pc) \<in> set promoters"
    and "row_modifier r = Inr (mi, mc)"
    and "sensor_kind_from_name (organ_name r col) = Some kind"
    and "map_of SENSOR_NAME_TO_TYPE_ID kind = Some tid"
    and "tid \<notin> {22, 23, 38, 39, 40, 41}
         \<or> map_of (amino_param1_by_code tbl) pc = None
         \<or> map_of (amino_param1_by_code tbl) mc = None"
  shows "\<lparr>sensor_kind = kind, organ_type_id = tid, promoter_code = pc,
           promoter_param1 = cell_of (map_of (amino_param1_by_code tbl) pc),
           modifier_index = Val mi, modifier_code = mc,
           modifier_param1 = cell_of (map_of (amino_param1_by_code tbl) mc),
           combined_param1 = PyNone, gain_abs = PyNone, polarity = PyNone,
           notes_txt = (if tid \<in> {22, 23, 38, 39, 40, 41} then env_dye_note
                        else non_param1_note)\<rparr> \<in> set out"
proof -
  from assms(8)
  have g: "gain_fields (tid \<in> {22, 23, 38, 39, 40, 41})
             (map_of (amino_param1_by_code tbl) pc) (map_of (amino_param1_by_code tbl) mc)
           = (PyNone, PyNone, PyNone)"
    by (intro gain_fields_empty) blast
  have "join_row (amino_param1_by_code tbl) kind (snd (col, pc)) mi mc =
     Inr \<lparr>sensor_kind = kind, organ_type_id = tid, promoter_code = pc,
           promoter_param1 = cell_of (map_of (amino_param1_by_code tbl) pc),
           modifier_index = Val mi, modifier_code = mc,
           modifier_param1 = cell_of (map_of (amino_param1_by_code tbl) mc),
           combined_param1 = PyNone, gain_abs = PyNone, polarity = PyNone,
           notes_txt = (if tid \<in> {22, 23, 38, 39, 40, 41} then env_dye_note
                        else non_param1_note)\<rparr>"
    using g by (simp add: join_row_eq [OF assms(7)])
  from final_rows_mem [OF assms(3,4,5) _ this] assms(6)
    set_generate_table [OF assms(1,2)]
  show ?thesis by simp
qed

theorem derived_fields_empty_witness:
  "\<lparr>sensor_kind = ''Energy Sensor'', organ_type_id = 24, promoter_code = ''Q'',
     promoter_param1 = PyNone, modifier_index = Val 5, modifier_code = ''H'',
     modifier_param1 = Val (1 / 10), combined_param1 = PyNone, gain_abs = PyNone,
     polarity = PyNone, notes_txt = non_param1_note\<rparr> \<in> set example_out"
proof -
  have r: "example_csv ! 0 \<in> set example_csv" by (simp add: example_csv_def)
  have p: "(''Q_Glutamine'', ''Q'') \<in> set promoters" by (simp add: promoters_def)
  have m: "row_modifier (example_csv ! 0) = Inr (5, ''H'')"
    unfolding example_csv_def by code_simp
  have k: "sensor_kind_from_name (organ_name (example_csv ! 0) ''Q_Glutamine'') = Some ''Energy Sensor''"
    unfolding example_csv_def by code_simp
  have t: "map_of SENSOR_NAME_TO_TYPE_ID ''Energy Sensor'' = Some 24" by code_simp
  have a: "(24::int) \<notin> {22, 23, 38, 39, 40, 41}
           \<or> map_of (amino_param1_by_code example_tbl) ''Q'' = None
           \<or> map_of (amino_param1_by_code example_tbl) ''H'' = None" by simp
  have pq: "map_of (amino_param1_by_code example_tbl) ''Q'' = None"
    unfolding example_tbl_def by code_simp
  have ph: "map_of (amino_param1_by_code example_tbl) ''H'' = Some (1 / 10)"
    unfolding example_tbl_def by code_simp
  from derived_fields_empty [OF example_run example_parse r p m k t a]
  show ?thesis by (simp add: pq ph cell_of_def)
qed

text \<open>The claim as first stated gives every such row the "non_param1_sensor" note. The
  second CSV row of the example has a Beta Sensor (id 23) under promoter H with the
  modifier K, which has no param1: its derived fields are empty and its note is the
  "env_dye_sensor" one.\<close>

theorem note_counterexample:
  "generate_table exact_float example_lines example_csv = Inr example_out
   \<and> sensor_kind_from_name (organ_name (example_csv ! 1) ''H_Histidine'') = Some ''Beta Sensor''
   \<and> map_of (amino_param1_by_code example_tbl) ''K'' = None
   \<and> example_out ! 2 =
       \<lparr>sensor_kind = ''Beta Sensor'', organ_type_id = 23, promoter_code = ''H'',
        promoter_param1 = Val (1 / 10), modifier_index = Val 3, modifier_code = ''K'',
        modifier_param1 = PyNone, combined_param1 = PyNone, gain_abs = PyNone,
        polarity = PyNone, notes_txt = env_dye_note\<rparr>
   \<and> filter (\<lambda>d. sensor_kind d = ''Beta Sensor'') example_out = [example_out ! 2]
   \<and> notes_txt (example_out ! 2) \<noteq> non_param1_note"
proof -
  have k: "sensor_kind_from_name (organ_name (example_csv ! 1) ''H_Histidine'') = Some ''Beta Sensor''"
    unfolding example_csv_def by code_simp
  have a: "map_of (amino_param1_by_code example_tbl) ''K'' = None"
    unfolding example_tbl_def by code_simp
  have o: "example_out ! 2 =
       \<lparr>sensor_kind = ''Beta Sensor'', organ_type_id = 23, promoter_code = ''H'',
        promoter_param1 = Val (1 / 10), modifier_index = Val 3, modifier_code = ''K'',
        modifier_param1 = PyNone, combined_param1 = PyNone, gain_abs = PyNone,
        polarity = PyNone, notes_txt = env_dye_note\<rparr>"
    by (simp add: example_out_def)
  have f: "filter (\<lambda>d. sensor_kind d = ''Beta Sensor'') example_out = [example_out ! 2]"
    by (simp add: example_out_def energy_row_def)
  have n: "notes_txt (example_out ! 2) \<noteq> non_param1_note"
    unfolding o by (simp add: env_dye_note_def non_param1_note_def)
  from example_run k a o f n show ?thesis by blast
qed

section \<open>Blank promoter cells\<close>

lemma strip_blank:
  assumes "list_all is_space v"
  shows "strip v = []"
proof -
  from assms have d: "dropWhile is_space v = []" by (induction v) simp_all
  show ?thesis unfolding strip_def d by simp
qed

lemma organ_name_blank: "blank_cell r col \<Longrightarrow> organ_name r col = []"
  by (auto simp: blank_cell_def organ_name_def strip_blank split: option.splits)

lemma sensor_kind_Nil: "sensor_kind_from_name [] = None"
  by (simp add: sensor_kind_from_name_def dict_keys_def SENSOR_NAME_TO_TYPE_ID_def)

lemma promoter_body_blank:
  "blank_cell r col \<Longrightarrow> promoter_body amino r mi mc (col, pc) rows = Inr rows"
  by (simp add: promoter_body_def organ_name_blank sensor_kind_Nil)

lemma joined_blank:
  "\<forall>p\<in>set ps. blank_cell r (fst p) \<Longrightarrow> joined amino r mi mc ps = []"
  by (simp add: joined_def organ_name_blank sensor_kind_Nil)

lemma table_rows_blank:
  "\<forall>r\<in>set rs. \<forall>p\<in>set promoters. blank_cell r (fst p) \<Longrightarrow> table_rows amino rs = []"
  by (auto simp: table_rows_def joined_blank split: sum.splits)

text \<open>
  Claim C9. A promoter column that is absent from a CSV row, or whose value is empty or all
  whitespace, is skipped like a classification miss: the loop body returns the rows
  unchanged and raises nothing. So a run whose shader table parses and whose rows all have
  a modifier index and a modifier code succeeds whatever the promoter columns hold, and
  when all promoter cells are blank the output holds nothing but the Energy Sensor row
  (when index 24 is in the shader table).
\<close>

theorem blank_promoter_skipped:
  fixes float_of :: "string \<Rightarrow> 'f::{plus,abs,zero,ord}"
  assumes "parse_shared_wgsl_param1 float_of lines = Inr tbl"
    and "\<forall>r\<in>set csv_rows. \<exists>mi mc. row_modifier r = Inr (mi, mc)"
  shows "(\<forall>r col pc mi mc rows. blank_cell r col \<longrightarrow>
            promoter_body (amino_param1_by_code tbl) r mi mc (col, pc) rows = Inr rows)
       \<and> (\<exists>out. generate_table float_of lines csv_rows = Inr out)
       \<and> ((\<forall>r\<in>set csv_rows. \<forall>p\<in>set promoters. blank_cell r (fst p)) \<longrightarrow>
            generate_table float_of lines csv_rows
              = Inr (if 24 \<in> set (dict_keys tbl) then [energy_row] else []))"
proof -
  from assms(2) have ok: "\<forall>r\<in>set csv_rows. \<not> isl (row_modifier r)" by auto
  note g = generate_table_ok [OF assms(1) ok]
  have "(\<forall>r\<in>set csv_rows. \<forall>p\<in>set promoters. blank_cell r (fst p)) \<longrightarrow>
            generate_table float_of lines csv_rows
              = Inr (if 24 \<in> set (dict_keys tbl) then [energy_row] else [])"
    unfolding g by (simp add: final_rows_def table_rows_blank)
  with g show ?thesis by (simp add: promoter_body_blank)
qed

theorem blank_promoter_skipped_witness:
  "parse_shared_wgsl_param1 exact_float example_lines = Inr example_tbl
   \<and> generate_table exact_float example_lines blank_csv = Inr [energy_row]
   \<and> promoter_body (amino_param1_by_code example_tbl) (blank_csv ! 1) 8 ''C''
        (''M_Methionine'', ''M'') [] = Inr []"
proof -
  have m: "\<forall>r\<in>set blank_csv. \<exists>mi mc. row_modifier r = Inr (mi, mc)"
  proof -
    have "row_modifier (blank_csv ! 0) = Inr (7, ''A'')" unfolding blank_csv_def by code_simp
    moreover have "row_modifier (blank_csv ! 1) = Inr (8, ''C'')" unfolding blank_csv_def by code_simp
    moreover have "set blank_csv = {blank_csv ! 0, blank_csv ! 1}" by (simp add: blank_csv_def)
    ultimately show ?thesis by auto
  qed
  note t = blank_promoter_skipped [OF example_parse m]
  have b: "\<forall>r\<in>set blank_csv. \<forall>p\<in>set promoters. blank_cell r (fst p)"
    by (simp add: blank_csv_def promoters_def blank_cell_def is_space_def)
  have k: "24 \<in> set (dict_keys example_tbl)" by (simp add: example_tbl_def dict_keys_def)
  have b1: "blank_cell (blank_csv ! 1) ''M_Methionine''"
    by (simp add: blank_csv_def blank_cell_def is_space_def)
  from t b k have "generate_table exact_float example_lines blank_csv = Inr [energy_row]"
    by simp
  moreover from t b1
  have "promoter_body (amino_param1_by_code example_tbl) (blank_csv ! 1) 8 ''C''
        (''M_Methionine'', ''M'') [] = Inr []" by blast
  ultimately show ?thesis using example_parse by blast
qed

section \<open>Rows with a bad modifier\<close>

lemma row_body_bad:
  "row_modifier r = Inl e \<Longrightarrow> row_body amino r rows = Inl e"
  by (simp add: row_body_def)

text \<open>
  Claim C10. The cells \<^verbatim>\<open>Modifier\<close> and \<^verbatim>\<open>Modifier_AA\<close> of a CSV row are read, and
  \<^verbatim>\<open>Modifier\<close> is parsed as an integer, before any promoter column is looked at: a row
  whose \<^verbatim>\<open>Modifier\<close> cell is missing or is not an integer, or whose \<^verbatim>\<open>Modifier_AA\<close> cell
  is missing, makes the loop body raise, with an error that only these two cells determine,
  and the whole run ends with an error, whatever the promoter columns of the row hold.
\<close>

theorem bad_modifier_aborts:
  fixes float_of :: "string \<Rightarrow> 'f::{plus,abs,zero,ord}"
    and amino :: "(string \<times> 'f) list"
  assumes "r \<in> set csv_rows"
    and "r ''Modifier'' = None \<or> r ''Modifier'' = Some None
         \<or> (\<exists>v. r ''Modifier'' = Some (Some v) \<and> py_int (strip v) = None)
         \<or> r ''Modifier_AA'' = None \<or> r ''Modifier_AA'' = Some None"
  shows "isl (generate_table float_of lines csv_rows)
       \<and> (\<exists>e. row_modifier r = Inl e \<and> row_body amino r rows = Inl e
              \<and> (\<forall>r' rows'. r' ''Modifier'' = r ''Modifier'' \<and> r' ''Modifier_AA'' = r ''Modifier_AA''
                   \<longrightarrow> row_body amino r' rows' = Inl e))"
proof -
  from assms(2) have "\<exists>e. row_modifier r = Inl e"
    by (auto simp: row_modifier_def stripped_cell_def split: option.splits)
  then obtain e where e: "row_modifier r = Inl e" ..
  have same: "row_modifier r' = row_modifier r"
    if "r' ''Modifier'' = r ''Modifier'' \<and> r' ''Modifier_AA'' = r ''Modifier_AA''" for r'
    using that by (simp add: row_modifier_def stripped_cell_def cong: sum.case_cong option.case_cong)
  have "isl (generate_table float_of lines csv_rows)"
  proof (cases "parse_shared_wgsl_param1 float_of lines")
    case (Inl a)
    then show ?thesis by (simp add: generate_table_def)
  next
    case (Inr tbl)
    from e have "isl (row_modifier r)" by simp
    from csv_loop_bad [OF assms(1) this, of "amino_param1_by_code tbl" "[]"] Inr
    show ?thesis by (auto simp: generate_table_def split: sum.splits)
  qed
  moreover have "\<forall>r' rows'. r' ''Modifier'' = r ''Modifier'' \<and> r' ''Modifier_AA'' = r ''Modifier_AA''
                   \<longrightarrow> row_body amino r' rows' = Inl e"
    using same e by (simp add: row_body_def)
  ultimately show ?thesis using e by (auto simp: row_body_def)
qed

theorem bad_modifier_aborts_witness:
  "isl (generate_table exact_float example_lines bad_csv)
   \<and> generate_table exact_float example_lines bad_csv = Inl (IntError ''1.5'')
   \<and> row_modifier (bad_csv ! 1) = Inl (IntError ''1.5'')
   \<and> sensor_kind_from_name (organ_name (bad_csv ! 1) ''V_Valine'') = None"
proof -
  have r: "bad_csv ! 1 \<in> set bad_csv" by (simp add: bad_csv_def)
  have p: "py_int (strip ''1.5'') = None" by code_simp
  have b: "(bad_csv ! 1) ''Modifier'' = None \<or> (bad_csv ! 1) ''Modifier'' = Some None
         \<or> (\<exists>v. (bad_csv ! 1) ''Modifier'' = Some (Some v) \<and> py_int (strip v) = None)
         \<or> (bad_csv ! 1) ''Modifier_AA'' = None \<or> (bad_csv ! 1) ''Modifier_AA'' = Some None"
    using p by (simp add: bad_csv_def)
  from bad_modifier_aborts [OF r b, of exact_float example_lines "[]" "[]"]
  have 1: "isl (generate_table exact_float example_lines bad_csv)" by blast
  have 2: "generate_table exact_float example_lines bad_csv = Inl (IntError ''1.5'')"
    unfolding example_lines_def bad_csv_def by code_simp
  have 3: "row_modifier (bad_csv ! 1) = Inl (IntError ''1.5'')"
    unfolding bad_csv_def by code_simp
  have 4: "sensor_kind_from_name (organ_name (bad_csv ! 1) ''V_Valine'') = None"
    unfolding bad_csv_def by code_simp
  from 1 2 3 4 show ?thesis by blast
qed

section \<open>The Energy Sensor row\<close>

lemma join_row_shape:
  assumes "join_row amino k pc mi mc = Inr d"
  shows "promoter_code d = pc \<and> modifier_index d = Val mi"
  using assms by (auto simp: join_row_def Let_def split: option.splits)

lemma table_rows_shape:
  assumes "d \<in> set (table_rows amino rs)"
  shows "promoter_code d \<in> snd ` set promoters \<and> (\<exists>n. modifier_index d = Val n)"
proof -
  from table_rows_origin [OF assms] obtain r mi mc where
    "d \<in> set (joined amino r mi mc promoters)" by blast
  from joined_origin [OF this] obtain p where "p \<in> set promoters"
    and "join_row amino (sensor_kind d) (snd p) mi mc = Inr d" by blast
  with join_row_shape [OF this(2)] show ?thesis by auto
qed

lemma promoter_codes_nonempty: "c \<in> snd ` set promoters \<Longrightarrow> c \<noteq> []"
  by (auto simp: promoters_def)

lemma energy_row_synthetic:
  "sensor_kind (energy_row :: 'f row) = ''Energy Sensor'' \<and> join_fields_empty (energy_row :: 'f row)"
  by (simp add: energy_row_def join_fields_empty_def empty_cell_def)

text \<open>
  Claim C1, as amended. The synthetic row is appended exactly when index 24 is a key of the
  parsed shader table, whatever the names of the records and whatever the CSV rows are:
  among the rows of the output, the rows of sensor kind "Energy Sensor" whose join fields
  (promoter code, promoter param1, modifier index, modifier code, modifier param1,
  combined, gain, polarity) are all empty are the one synthetic row when 24 is a key of the
  table, and none otherwise.
\<close>

theorem energy_row_by_index:
  fixes float_of :: "string \<Rightarrow> 'f::{plus,abs,zero,ord}"
  assumes "generate_table float_of lines csv_rows = Inr out"
    and "parse_shared_wgsl_param1 float_of lines = Inr tbl"
  shows "filter (\<lambda>d. sensor_kind d = ''Energy Sensor'' \<and> join_fields_empty d) out
           = (if 24 \<in> set (dict_keys tbl) then [energy_row] else [])"
proof -
  let ?P = "\<lambda>d :: 'f row. sensor_kind d = ''Energy Sensor'' \<and> join_fields_empty d"
  from generate_table_Inr [OF assms(1)] assms(2)
  have out: "out = sort_key sort_key_row (final_rows tbl csv_rows)" by auto
  have "filter ?P (table_rows (amino_param1_by_code tbl) csv_rows) = []"
    using table_rows_shape promoter_codes_nonempty
    by (fastforce simp: filter_empty_conv join_fields_empty_def)
  then have "filter ?P (final_rows tbl csv_rows)
               = (if 24 \<in> set (dict_keys tbl) then [energy_row] else [])"
    using energy_row_synthetic [where 'f = 'f] by (simp add: final_rows_def)
  then show ?thesis unfolding out by (simp add: filter_sort)
qed

theorem energy_row_by_index_witness:
  "24 \<in> set (dict_keys example_tbl)
   \<and> filter (\<lambda>d. sensor_kind d = ''Energy Sensor'' \<and> join_fields_empty d) example_out
       = [energy_row]"
proof -
  have k: "24 \<in> set (dict_keys example_tbl)" by (simp add: example_tbl_def dict_keys_def)
  from energy_row_by_index [OF example_run example_parse] k show ?thesis by simp
qed

text \<open>The claim as first stated lets the name decide. A shader table whose only record is
  named "Energy Sensor" and has index 5 gives no synthetic row; and in the worked example
  the output has two rows of sensor kind "Energy Sensor", the synthetic one and the one of
  the CSV cell that names the Energy Sensor.\<close>

theorem energy_by_name_counterexample:
  "parse_shared_wgsl_param1 exact_float named_energy_lines
     = Inr [(5, \<lparr>idx = 5, code = ''E'', name = ''Energy Sensor'', param1 = 1\<rparr>)]
   \<and> sensor_kind_from_name ''Energy Sensor'' = Some ''Energy Sensor''
   \<and> generate_table exact_float named_energy_lines [] = Inr []
   \<and> generate_table exact_float example_lines example_csv = Inr example_out
   \<and> length (filter (\<lambda>d. sensor_kind d = ''Energy Sensor'') example_out) = 2"
proof -
  have 1: "parse_shared_wgsl_param1 exact_float named_energy_lines
     = Inr [(5, \<lparr>idx = 5, code = ''E'', name = ''Energy Sensor'', param1 = 1\<rparr>)]"
    unfolding named_energy_lines_def by code_simp
  have 2: "sensor_kind_from_name ''Energy Sensor'' = Some ''Energy Sensor''" by code_simp
  have 3: "generate_table exact_float named_energy_lines [] = (Inr [] :: error + rat row list)"
    unfolding named_energy_lines_def by code_simp
  have 4: "length (filter (\<lambda>d. sensor_kind d = ''Energy Sensor'') example_out) = 2"
    by (simp add: example_out_def energy_row_def)
  from 1 2 3 4 example_run show ?thesis by blast
qed

section \<open>The order of the rows\<close>

lemma final_rows_shape:
  assumes "d \<in> set (final_rows tbl csv_rows)"
  shows "(promoter_code d = [] \<and> modifier_index d = EmptyStr)
         \<or> (promoter_code d \<noteq> [] \<and> (\<exists>n. modifier_index d = Val n))"
proof (cases "d \<in> set (table_rows (amino_param1_by_code tbl) csv_rows)")
  case True
  from table_rows_shape [OF this] promoter_codes_nonempty show ?thesis by blast
next
  case False
  with assms have "d = energy_row" by (auto simp: final_rows_def split: if_splits)
  then show ?thesis by (simp add: energy_row_def)
qed

text \<open>
  Claim C6. The result list is sorted in ascending order of the key (sensor kind, promoter
  code, modifier index), and among rows of the same sensor kind and promoter code a row
  whose modifier index is an integer stands before a row whose modifier index is not one.
  The only row without an integer modifier index is the synthetic Energy Sensor row, whose
  key ends in the sentinel 999 and whose promoter code, the empty string, no other row has.
\<close>

theorem result_sorted:
  fixes float_of :: "string \<Rightarrow> 'f::{plus,abs,zero,ord}"
  assumes "generate_table float_of lines csv_rows = Inr out"
  shows "sorted (map sort_key_row out)
       \<and> (\<forall>i j. i < length out \<and> j < length out
             \<and> sensor_kind (out ! i) = sensor_kind (out ! j)
             \<and> promoter_code (out ! i) = promoter_code (out ! j)
             \<and> (\<exists>n. modifier_index (out ! i) = Val n)
             \<and> (\<forall>n. modifier_index (out ! j) \<noteq> Val n)
           \<longrightarrow> i < j)
       \<and> (\<forall>d\<in>set out.
             (\<exists>n. modifier_index d = Val n \<and> snd (snd (sort_key_row d)) = n)
             \<or> (d = energy_row \<and> sort_key_row d = (''Energy Sensor'', [], 999)))"
proof -
  from generate_table_Inr [OF assms] obtain tbl where
    out: "out = sort_key sort_key_row (final_rows tbl csv_rows)" by auto
  have s: "sorted (map sort_key_row out)" unfolding out by (rule sorted_sort_key)
  have shape: "(promoter_code d = [] \<and> modifier_index d = EmptyStr)
         \<or> (promoter_code d \<noteq> [] \<and> (\<exists>n. modifier_index d = Val n))" if "d \<in> set out" for d
    using that final_rows_shape [of d tbl csv_rows] unfolding out by simp
  have "i < j" if "i < length out" "j < length out"
    "promoter_code (out ! i) = promoter_code (out ! j)"
    "\<exists>n. modifier_index (out ! i) = Val n" "\<forall>n. modifier_index (out ! j) \<noteq> Val n" for i j
  proof -
    from shape [of "out ! i"] shape [of "out ! j"] that show ?thesis
      by (metis cell.distinct(3) nth_mem)
  qed
  moreover have "(\<exists>n. modifier_index d = Val n \<and> snd (snd (sort_key_row d)) = n)
             \<or> (d = energy_row \<and> sort_key_row d = (''Energy Sensor'', [], 999))"
    if "d \<in> set out" for d
  proof (cases "d \<in> set (table_rows (amino_param1_by_code tbl) csv_rows)")
    case True
    from table_rows_shape [OF this] show ?thesis by (auto simp: sort_key_row_def)
  next
    case False
    with that have "d = energy_row" unfolding out by (auto simp: final_rows_def split: if_splits)
    then show ?thesis by (simp add: energy_row_def sort_key_row_def)
  qed
  ultimately show ?thesis using s by blast
qed

theorem result_sorted_witness:
  "generate_table exact_float example_lines example_csv = Inr example_out
   \<and> sorted (map sort_key_row example_out)
   \<and> map sort_key_row example_out =
       [(''Agent Alpha Sensor'', ''V'', 3), (''Alpha Sensor'', ''V'', 5),
        (''Beta Sensor'', ''H'', 3), (''Energy Sensor'', [], 999), (''Energy Sensor'', ''Q'', 5)]"
proof -
  from result_sorted [OF example_run]
  have 1: "sorted (map sort_key_row example_out)" by blast
  have 2: "map sort_key_row example_out =
       [(''Agent Alpha Sensor'', ''V'', 3), (''Alpha Sensor'', ''V'', 5),
        (''Beta Sensor'', ''H'', 3), (''Energy Sensor'', [], 999), (''Energy Sensor'', ''Q'', 5)]"
    by (simp add: example_out_def energy_row_def sort_key_row_def)
  from example_run 1 2 show ?thesis by blast
qed

section \<open>The scan of the shader table\<close>

lemma find_data_skip:
  "j < length lines \<Longrightarrow> skipped_line (lines ! j) \<Longrightarrow> find_data lines j = find_data lines (j + 1)"
  by (subst find_data.simps) (auto simp: skipped_line_def Let_def)

lemma find_data_reaches:
  assumes "j \<le> k" and "k < length lines"
    and "\<forall>n. j \<le> n \<and> n < k \<longrightarrow> skipped_line (lines ! n)"
  shows "find_data lines j = find_data lines k"
  using assms
proof (induction "k - j" arbitrary: j)
  case 0
  then show ?case by simp
next
  case (Suc d)
  then have "j < k" by simp
  with Suc.prems have "find_data lines j = find_data lines (j + 1)"
    by (intro find_data_skip) auto
  also have "find_data lines (j + 1) = find_data lines k"
    using Suc.hyps Suc.prems \<open>j < k\<close> by (intro Suc.hyps(1)) auto
  finally show ?case .
qed

lemma find_data_comment:
  "k < length lines \<Longrightarrow> comment_line (lines ! k) \<Longrightarrow> find_data lines k = (k, None)"
  by (subst find_data.simps) (simp add: comment_line_def Let_def)

lemma find_data_data:
  "k < length lines \<Longrightarrow> data_line (lines ! k) \<Longrightarrow> find_data lines k = (k, Some (strip (lines ! k)))"
  by (subst find_data.simps) (simp add: data_line_def Let_def)

lemma scan_loop_step:
  "pos st < length lines \<Longrightarrow> scan_step float_of lines st = Inr st' \<Longrightarrow>
   scan_loop float_of lines st = scan_loop float_of lines st'"
  by (subst scan_loop.simps) simp

text \<open>
  Claim C5. Let the line at the scan position match the header pattern, and let the
  forward search pass over the lines up to line \<open>k\<close>. When line \<open>k\<close> is a comment line, the
  search ends there without a data line, the header yields no record (the entries are
  unchanged) and the main scan goes on at the header's line plus one. When line \<open>k\<close> is a
  data line and its record is well formed, the record is stored and the main scan again
  goes on at the header's line plus one, not past line \<open>k\<close>: the lines of the data block are
  looked at again as possible headers.
\<close>

theorem scan_advances_one_line:
  assumes "pos st < length lines"
    and "re_match header_re (lines ! pos st) = Some m"
    and "py_int (group m 1) = Some i"
    and "pos st < k" and "k < length lines"
    and "\<forall>n. pos st < n \<and> n < k \<longrightarrow> skipped_line (lines ! n)"
  shows "(comment_line (lines ! k) \<longrightarrow>
            find_data lines (pos st + 1) = (k, None)
          \<and> scan_step float_of lines st = Inr (st\<lparr>pos := pos st + 1\<rparr>)
          \<and> scan_loop float_of lines st = scan_loop float_of lines (st\<lparr>pos := pos st + 1\<rparr>))
       \<and> (data_line (lines ! k) \<longrightarrow>
            find_data lines (pos st + 1) = (k, Some (strip (lines ! k)))
          \<and> (\<forall>e. entry_of_data float_of i (group m 2) (group m 3) (strip (lines ! k)) = Inr e \<longrightarrow>
                 scan_step float_of lines st
                   = Inr \<lparr>pos = pos st + 1, entries = dict_set i e (entries st)\<rparr>
               \<and> scan_loop float_of lines st
                   = scan_loop float_of lines
                       \<lparr>pos = pos st + 1, entries = dict_set i e (entries st)\<rparr>))"
proof -
  have r: "find_data lines (pos st + 1) = find_data lines k"
    using assms(4,5,6) by (intro find_data_reaches) auto
  have c: "find_data lines (pos st + 1) = (k, None)
          \<and> scan_step float_of lines st = Inr (st\<lparr>pos := pos st + 1\<rparr>)
          \<and> scan_loop float_of lines st = scan_loop float_of lines (st\<lparr>pos := pos st + 1\<rparr>)"
    if "comment_line (lines ! k)"
  proof -
    from r find_data_comment [OF assms(5) that]
    have f: "find_data lines (pos st + 1) = (k, None)" by simp
    with assms(2,3) have s: "scan_step float_of lines st = Inr (st\<lparr>pos := pos st + 1\<rparr>)"
      by (simp add: scan_step_def)
    from f s scan_loop_step [OF assms(1) s] show ?thesis by simp
  qed
  have d: "find_data lines (pos st + 1) = (k, Some (strip (lines ! k)))
          \<and> (\<forall>e. entry_of_data float_of i (group m 2) (group m 3) (strip (lines ! k)) = Inr e \<longrightarrow>
                 scan_step float_of lines st
                   = Inr \<lparr>pos = pos st + 1, entries = dict_set i e (entries st)\<rparr>
               \<and> scan_loop float_of lines st
                   = scan_loop float_of lines
                       \<lparr>pos = pos st + 1, entries = dict_set i e (entries st)\<rparr>)"
    if "data_line (lines ! k)"
  proof -
    from r find_data_data [OF assms(5) that]
    have f: "find_data lines (pos st + 1) = (k, Some (strip (lines ! k)))" by simp
    have "scan_step float_of lines st = Inr \<lparr>pos = pos st + 1, entries = dict_set i e (entries st)\<rparr>
        \<and> scan_loop float_of lines st
            = scan_loop float_of lines \<lparr>pos = pos st + 1, entries = dict_set i e (entries st)\<rparr>"
      if e: "entry_of_data float_of i (group m 2) (group m 3) (strip (lines ! k)) = Inr e" for e
    proof -
      from f e assms(2,3)
      have s: "scan_step float_of lines st = Inr \<lparr>pos = pos st + 1, entries = dict_set i e (entries st)\<rparr>"
        by (simp add: scan_step_def)
      from s scan_loop_step [OF assms(1) s] show ?thesis by simp
    qed
    with f show ?thesis by blast
  qed
  from c d show ?thesis by blast
qed

text \<open>An example: the header of line 0 is given up at the comment of line 2, and the
  header of line 2 takes the data of line 4; the scan goes from 0 to 1 and from 2 to 3.\<close>

theorem scan_advances_one_line_witness:
  "scan_step exact_float abandoned_lines \<lparr>pos = 0, entries = []\<rparr> = Inr \<lparr>pos = 1, entries = []\<rparr>
   \<and> find_data abandoned_lines 1 = (2, None)
   \<and> scan_step exact_float abandoned_lines \<lparr>pos = 2, entries = []\<rparr>
       = Inr \<lparr>pos = 3, entries = [(2, \<lparr>idx = 2, code = ''C'', name = ''Cysteine'', param1 = 1 / 2\<rparr>)]\<rparr>
   \<and> find_data abandoned_lines 3 = (4, Some (strip (abandoned_lines ! 4)))
   \<and> parse_shared_wgsl_param1 exact_float abandoned_lines
       = Inr [(2, \<lparr>idx = 2, code = ''C'', name = ''Cysteine'', param1 = 1 / 2\<rparr>)]"
proof -
  let ?s0 = "\<lparr>pos = 0, entries = []\<rparr> :: rat scan_state"
  let ?s2 = "\<lparr>pos = 2, entries = []\<rparr> :: rat scan_state"
  have l: "length abandoned_lines = 5" by (simp add: abandoned_lines_def)
  have h0: "re_match header_re (abandoned_lines ! pos ?s0)
              = Some (''// 1 A - Alanine\<newline>'', [(1, ''1''), (2, ''A''), (3, ''Alanine'')])"
    unfolding abandoned_lines_def by code_simp
  have i0: "py_int (group (''// 1 A - Alanine\<newline>'', [(1, ''1''), (2, ''A''), (3, ''Alanine'')]) 1) = Some 1"
    by code_simp
  have sk0: "\<forall>n. pos ?s0 < n \<and> n < 2 \<longrightarrow> skipped_line (abandoned_lines ! n)"
  proof -
    have "skipped_line (abandoned_lines ! 1)" unfolding abandoned_lines_def by code_simp
    moreover have "n = 1" if "pos ?s0 < n \<and> n < 2" for n using that by simp
    ultimately show ?thesis by blast
  qed
  have c0: "comment_line (abandoned_lines ! 2)" unfolding abandoned_lines_def by code_simp
  have p0: "pos ?s0 < length abandoned_lines" "pos ?s0 < 2" "2 < length abandoned_lines"
    by (simp_all add: l)
  note t0 = scan_advances_one_line [of ?s0 abandoned_lines _ 1 2 exact_float, OF p0(1) h0 i0 p0(2,3) sk0]
  from t0 c0 have "find_data abandoned_lines (pos ?s0 + 1) = (2, None)"
    and "scan_step exact_float abandoned_lines ?s0 = Inr (?s0\<lparr>pos := pos ?s0 + 1\<rparr>)"
    by blast+
  then have 1: "scan_step exact_float abandoned_lines ?s0 = Inr \<lparr>pos = 1, entries = []\<rparr>"
    and 2: "find_data abandoned_lines 1 = (2, None)" by simp_all
  have h2: "re_match header_re (abandoned_lines ! pos ?s2)
              = Some (''  // 2 C - Cysteine\<newline>'', [(1, ''2''), (2, ''C''), (3, ''Cysteine'')])"
    unfolding abandoned_lines_def by code_simp
  have i2: "py_int (group (''  // 2 C - Cysteine\<newline>'', [(1, ''2''), (2, ''C''), (3, ''Cysteine'')]) 1) = Some 2"
    by code_simp
  have sk2: "\<forall>n. pos ?s2 < n \<and> n < 4 \<longrightarrow> skipped_line (abandoned_lines ! n)"
  proof -
    have "skipped_line (abandoned_lines ! 3)" unfolding abandoned_lines_def by code_simp
    moreover have "n = 3" if "pos ?s2 < n \<and> n < 4" for n using that by simp
    ultimately show ?thesis by blast
  qed
  have d2: "data_line (abandoned_lines ! 4)" unfolding abandoned_lines_def by code_simp
  have e2: "entry_of_data exact_float 2
              (group (''  // 2 C - Cysteine\<newline>'', [(1, ''2''), (2, ''C''), (3, ''Cysteine'')]) 2)
              (group (''  // 2 C - Cysteine\<newline>'', [(1, ''2''), (2, ''C''), (3, ''Cysteine'')]) 3)
              (strip (abandoned_lines ! 4))
            = Inr \<lparr>idx = 2, code = ''C'', name = ''Cysteine'', param1 = 1 / 2\<rparr>"
    unfolding abandoned_lines_def by code_simp
  have p2: "pos ?s2 < length abandoned_lines" "pos ?s2 < 4" "4 < length abandoned_lines"
    by (simp_all add: l)
  note t2 = scan_advances_one_line [of ?s2 abandoned_lines _ 2 4 exact_float, OF p2(1) h2 i2 p2(2,3) sk2]
  from t2 d2 e2 have "find_data abandoned_lines (pos ?s2 + 1) = (4, Some (strip (abandoned_lines ! 4)))"
    and "scan_step exact_float abandoned_lines ?s2
       = Inr \<lparr>pos = pos ?s2 + 1,
              entries = dict_set 2 \<lparr>idx = 2, code = ''C'', name = ''Cysteine'', param1 = 1 / 2\<rparr>
                          (entries ?s2)\<rparr>"
    by blast+
  then have 3: "scan_step exact_float abandoned_lines ?s2
       = Inr \<lparr>pos = 3, entries = [(2, \<lparr>idx = 2, code = ''C'', name = ''Cysteine'', param1 = 1 / 2\<rparr>)]\<rparr>"
    and 4: "find_data abandoned_lines 3 = (4, Some (strip (abandoned_lines ! 4)))"
    by simp_all
  have 5: "parse_shared_wgsl_param1 exact_float abandoned_lines
       = Inr [(2, \<lparr>idx = 2, code = ''C'', name = ''Cysteine'', param1 = 1 / 2\<rparr>)]"
    unfolding abandoned_lines_def by code_simp
  from 1 2 3 4 5 show ?thesis by blast
qed

section \<open>The matches of the float pattern\<close>

lemma star_greedy_stop:
  "r = [] \<or> \<not> P (hd r) \<Longrightarrow> star_greedy P r k = k r"
  by (cases r) auto

lemma star_greedy_all:
  "\<forall>c\<in>set ds. P c \<Longrightarrow> r = [] \<or> \<not> P (hd r) \<Longrightarrow> k r = Some x \<Longrightarrow>
   star_greedy P (ds @ r) k = Some x"
  by (induction ds) (simp_all add: star_greedy_stop)

lemma star_greedy_back:
  "\<forall>c\<in>set ds. P c \<Longrightarrow> P d \<Longrightarrow> r = [] \<or> \<not> P (hd r) \<Longrightarrow> k r = None \<Longrightarrow>
   k (d # r) = Some x \<Longrightarrow> star_greedy P (ds @ d # r) k = Some x"
  by (induction ds) (simp_all add: star_greedy_stop)

lemma star_greedy_total:
  "\<forall>s. k s \<noteq> None \<Longrightarrow> star_greedy P s k \<noteq> None"
  by (induction s) (auto split: option.splits)

lemma star_greedy_suffix:
  "star_greedy P s k = Some x \<Longrightarrow> \<exists>u s'. s = u @ s' \<and> k s' = Some x"
proof (induction s)
  case Nil
  then show ?case by auto
next
  case (Cons c s)
  show ?case
  proof (cases "P c \<and> star_greedy P s k \<noteq> None")
    case True
    with Cons.prems have "star_greedy P s k = Some x" by auto
    from Cons.IH [OF this] obtain u s' where "s = u @ s'" "k s' = Some x" by blast
    then have "c # s = (c # u) @ s'" by simp
    with \<open>k s' = Some x\<close> show ?thesis by blast
  next
    case False
    with Cons.prems have "k (c # s) = Some x" by (auto split: if_splits option.splits)
    then have "c # s = [] @ (c # s) \<and> k (c # s) = Some x" by simp
    then show ?thesis by blast
  qed
qed

lemma plus_lazy_suffix:
  "plus_lazy P s k = Some x \<Longrightarrow> \<exists>u s'. s = u @ s' \<and> k s' = Some x"
proof (induction s)
  case Nil
  then show ?case by simp
next
  case (Cons c s)
  show ?case
  proof (cases "k s")
    case None
    with Cons.prems have "plus_lazy P s k = Some x" by (auto split: if_splits)
    from Cons.IH [OF this] obtain u s' where "s = u @ s'" "k s' = Some x" by blast
    then have "c # s = (c # u) @ s'" by simp
    with \<open>k s' = Some x\<close> show ?thesis by blast
  next
    case (Some y)
    with Cons.prems have "k s = Some x" by (auto split: if_splits)
    then have "c # s = [c] @ s \<and> k s = Some x" by simp
    then show ?thesis by blast
  qed
qed

lemma rmatch_suffix:
  "rmatch r s cs k = Some x \<Longrightarrow> \<exists>u s' cs'. s = u @ s' \<and> k s' cs' = Some x"
proof (induction r arbitrary: s cs k)
  case Eps
  then have "s = [] @ s \<and> k s cs = Some x" by simp
  then show ?case by blast
next
  case (C c)
  then obtain y ys where "s = y # ys" "k ys cs = Some x"
    by (cases s) (auto split: if_splits)
  then have "s = [y] @ ys \<and> k ys cs = Some x" by simp
  then show ?case by blast
next
  case (Seq a b)
  from Seq.prems have "rmatch a s cs (\<lambda>s' cs'. rmatch b s' cs' k) = Some x" by simp
  from Seq.IH(1) [OF this] obtain u1 s1 c1 where
    1: "s = u1 @ s1" "rmatch b s1 c1 k = Some x" by blast
  from Seq.IH(2) [OF 1(2)] obtain u2 s2 c2 where
    2: "s1 = u2 @ s2" "k s2 c2 = Some x" by blast
  from 1 2 have "s = (u1 @ u2) @ s2 \<and> k s2 c2 = Some x" by simp
  then show ?case by blast
next
  case (Opt a)
  show ?case
  proof (cases "rmatch a s cs k")
    case None
    with Opt.prems have "s = [] @ s \<and> k s cs = Some x" by simp
    then show ?thesis by blast
  next
    case (Some y)
    with Opt.prems have "rmatch a s cs k = Some x" by simp
    from Opt.IH [OF this] show ?thesis .
  qed
next
  case (Star c)
  then have "star_greedy (cls_has c) s (\<lambda>s'. k s' cs) = Some x" by simp
  from star_greedy_suffix [OF this] show ?case by blast
next
  case (Plus c)
  then obtain y ys where s: "s = y # ys"
    and "star_greedy (cls_has c) ys (\<lambda>s'. k s' cs) = Some x"
    by (cases s) (auto split: if_splits)
  from star_greedy_suffix [OF this(2)] obtain u s' where "ys = u @ s'" "k s' cs = Some x"
    by blast
  with s have "s = (y # u) @ s' \<and> k s' cs = Some x" by simp
  then show ?case by blast
next
  case (PlusLazy c)
  then have "plus_lazy (cls_has c) s (\<lambda>s'. k s' cs) = Some x" by simp
  from plus_lazy_suffix [OF this] show ?case by blast
next
  case (Grp n a)
  from Grp.prems
  have "rmatch a s cs (\<lambda>s' cs'. k s' (cs' @ [(n, take (length s - length s') s)])) = Some x"
    by simp
  from Grp.IH [OF this] show ?case by blast
next
  case Eol
  then have "s = [] @ s \<and> k s cs = Some x" by (auto split: if_splits)
  then show ?case by blast
qed

lemma plus_digit_head:
  "rmatch (Plus Digit) s cs k = Some x \<Longrightarrow> s \<noteq> [] \<and> is_digit (hd s)"
  by (cases s) (auto split: if_splits)

lemma WGSL_FLOAT_RE_unfold:
  "WGSL_FLOAT_RE =
     Seq (Opt (C (OneOf ''-+''))) (Seq (Star Digit) (Seq (Opt (C (Lit CHR ''.'')))
       (Seq (Plus Digit) (Opt EXP_RE))))"
  by (simp add: WGSL_FLOAT_RE_def EXP_RE_def)

lemma float_match_digit:
  assumes "rmatch WGSL_FLOAT_RE s cs k = Some x"
  shows "\<exists>c\<in>set s. is_digit c"
proof -
  from assms have
    "rmatch (Opt (C (OneOf ''-+''))) s cs (\<lambda>s1 c1. rmatch (Star Digit) s1 c1
       (\<lambda>s2 c2. rmatch (Opt (C (Lit CHR ''.''))) s2 c2
         (\<lambda>s3 c3. rmatch (Plus Digit) s3 c3 (\<lambda>s4 c4. rmatch (Opt EXP_RE) s4 c4 k)))) = Some x"
    by (simp add: WGSL_FLOAT_RE_unfold)
  from rmatch_suffix [OF this] obtain u1 s1 c1 where 1: "s = u1 @ s1"
    and "rmatch (Star Digit) s1 c1
       (\<lambda>s2 c2. rmatch (Opt (C (Lit CHR ''.''))) s2 c2
         (\<lambda>s3 c3. rmatch (Plus Digit) s3 c3 (\<lambda>s4 c4. rmatch (Opt EXP_RE) s4 c4 k))) = Some x"
    by blast
  from rmatch_suffix [OF this(2)] obtain u2 s2 c2 where 2: "s1 = u2 @ s2"
    and "rmatch (Opt (C (Lit CHR ''.''))) s2 c2
         (\<lambda>s3 c3. rmatch (Plus Digit) s3 c3 (\<lambda>s4 c4. rmatch (Opt EXP_RE) s4 c4 k)) = Some x"
    by blast
  from rmatch_suffix [OF this(2)] obtain u3 s3 c3 where 3: "s2 = u3 @ s3"
    and "rmatch (Plus Digit) s3 c3 (\<lambda>s4 c4. rmatch (Opt EXP_RE) s4 c4 k) = Some x"
    by blast
  from plus_digit_head [OF this(2)] have "s3 \<noteq> []" "is_digit (hd s3)" by simp_all
  then have "hd s3 \<in> set s3" by simp
  with 1 2 3 \<open>is_digit (hd s3)\<close> show ?thesis by auto
qed

lemma opt_total: "k s cs \<noteq> None \<Longrightarrow> rmatch (Opt a) s cs k \<noteq> None"
  by (simp split: option.splits)

lemma float_match_at_digit:
  assumes "is_digit d" and "\<forall>s' cs'. k s' cs' \<noteq> None"
  shows "rmatch WGSL_FLOAT_RE (d # b) cs k \<noteq> None"
proof -
  let ?K4 = "\<lambda>s4 c4. rmatch (Opt EXP_RE) s4 c4 k"
  let ?K3 = "\<lambda>s3 c3. rmatch (Plus Digit) s3 c3 ?K4"
  let ?K2 = "\<lambda>s2 c2. rmatch (Opt (C (Lit CHR ''.''))) s2 c2 ?K3"
  let ?K1 = "\<lambda>s1 c1. rmatch (Star Digit) s1 c1 ?K2"
  have k4: "?K4 s' c' \<noteq> None" for s' c' using assms(2) by (intro opt_total) simp
  have "star_greedy (cls_has Digit) b (\<lambda>s'. ?K4 s' cs) \<noteq> None"
    using k4 by (intro star_greedy_total) simp
  then have k3: "?K3 (d # b) cs \<noteq> None" using assms(1) by simp
  have k2: "?K2 (d # b) cs \<noteq> None" using k3 by (intro opt_total)
  have "star_greedy (cls_has Digit) (d # b) (\<lambda>s'. ?K2 s' cs) \<noteq> None"
    using k2 assms(1) by (auto split: option.splits)
  then have k1: "?K1 (d # b) cs \<noteq> None" by simp
  have "rmatch (Opt (C (OneOf ''-+''))) (d # b) cs ?K1 \<noteq> None"
    using k1 by (intro opt_total)
  then show ?thesis by (simp add: WGSL_FLOAT_RE_unfold)
qed

lemma re_match_float_digit:
  "re_match WGSL_FLOAT_RE s = Some m \<Longrightarrow> \<exists>c\<in>set s. is_digit c"
  unfolding re_match_def re_match_at_def
  by (cases "rmatch WGSL_FLOAT_RE s []
        (\<lambda>s' cs. if False \<and> length s' = length s then None
                  else Some ((take (length s - length s') s, cs), s'))")
     (auto dest: float_match_digit)

lemma re_match_float_at_digit:
  "is_digit d \<Longrightarrow> re_match WGSL_FLOAT_RE (d # b) \<noteq> None"
  unfolding re_match_def re_match_at_def
  using float_match_at_digit [of d "\<lambda>s' cs. Some ((take (length (d # b) - length s') (d # b), cs), s')" b "[]"]
  by simp

lemma re_search_float_None:
  "re_search WGSL_FLOAT_RE p = None \<longleftrightarrow> (\<forall>c\<in>set p. \<not> is_digit c)"
proof (induction p)
  case Nil
  show ?case using re_match_float_digit [of "[]"] by (cases "re_match WGSL_FLOAT_RE []") auto
next
  case (Cons x xs)
  show ?case
  proof (cases "re_match WGSL_FLOAT_RE (x # xs)")
    case None
    with re_match_float_at_digit [of x xs] have "\<not> is_digit x" by auto
    with None Cons.IH show ?thesis by simp
  next
    case (Some m)
    from re_match_float_digit [OF this] Some show ?thesis by auto
  qed
qed

lemma digit_not_punct:
  "is_digit d \<Longrightarrow> d \<notin> set ''-+.eE''"
  by (auto simp: is_digit_def)

lemma plus_digit_all:
  assumes "ds \<noteq> []" and "\<forall>c\<in>set ds. is_digit c" and "r = [] \<or> \<not> is_digit (hd r)"
    and "k r cs = Some x"
  shows "rmatch (Plus Digit) (ds @ r) cs k = Some x"
proof -
  from assms(1) obtain d ds' where ds: "ds = d # ds'" by (cases ds) auto
  have "star_greedy (cls_has Digit) (ds' @ r) (\<lambda>s'. k s' cs) = Some x"
    using assms(2,3,4) ds by (intro star_greedy_all) auto
  with ds assms(2) show ?thesis by simp
qed

lemma exp_match:
  assumes "is_exponent ex"
    and "post = [] \<or> (\<not> is_digit (hd post) \<and> hd post \<notin> set ''eE'')"
    and "k post cs = Some x"
  shows "rmatch (Opt EXP_RE) (ex @ post) cs k = Some x"
proof (cases "ex = []")
  case True
  have "rmatch EXP_RE post cs k = None"
    using assms(2) by (cases post) (auto simp: EXP_RE_def)
  with True assms(3) show ?thesis by simp
next
  case False
  with assms(1) obtain e sg ds where ex: "ex = e # sg @ ds" and e: "e \<in> set ''eE''"
    and sg: "is_sign sg" and ds: "ds \<noteq> []" "\<forall>c\<in>set ds. is_digit c"
    by (auto simp: is_exponent_def)
  have pd: "rmatch (Plus Digit) (ds @ post) cs k = Some x"
    using ds assms(2,3) by (intro plus_digit_all) auto
  have "rmatch (Opt (C (OneOf ''-+''))) (sg @ ds @ post) cs (\<lambda>s c. rmatch (Plus Digit) s c k)
          = Some x"
  proof (cases "sg = []")
    case True
    from ds obtain d ds' where d: "ds = d # ds'" by (cases ds) auto
    with ds(2) have "is_digit d" by simp
    from digit_not_punct [OF this] have "d \<notin> set ''-+''" by simp
    with True d pd show ?thesis by simp
  next
    case False
    with sg obtain c where "sg = [c]" "c \<in> set ''-+''" by (auto simp: is_sign_def)
    with pd show ?thesis by simp
  qed
  then have "rmatch EXP_RE (ex @ post) cs k = Some x"
    using e by (simp add: ex EXP_RE_def)
  then show ?thesis by simp
qed

lemma mant_match:
  assumes "pattern_mantissa m"
    and r: "r = [] \<or> (\<not> is_digit (hd r)
              \<and> (hd r = CHR ''.'' \<longrightarrow> tl r = [] \<or> \<not> is_digit (hd (tl r))))"
    and K: "K r cs = Some x"
  shows "rmatch (Star Digit) (m @ r) cs
           (\<lambda>s2 c2. rmatch (Opt (C (Lit CHR ''.''))) s2 c2
              (\<lambda>s3 c3. rmatch (Plus Digit) s3 c3 K)) = Some x"
proof -
  let ?K3 = "\<lambda>s3 c3. rmatch (Plus Digit) s3 c3 K"
  let ?K2 = "\<lambda>s2. rmatch (Opt (C (Lit CHR ''.''))) s2 cs ?K3"
  from assms(1) obtain ds fs where ds: "\<forall>c\<in>set ds. is_digit c"
    and fs: "\<forall>c\<in>set fs. is_digit c" "fs \<noteq> []"
    and m: "m = ds @ fs \<or> m = ds @ ''.'' @ fs"
    by (auto simp: pattern_mantissa_def)
  from r have r': "r = [] \<or> \<not> is_digit (hd r)" by auto
  from m show ?thesis
  proof
    assume m: "m = ds @ ''.'' @ fs"
    have "rmatch (Plus Digit) (fs @ r) cs K = Some x"
      using fs r' K by (intro plus_digit_all) auto
    then have k2: "?K2 (CHR ''.'' # fs @ r) = Some x" by simp
    have "star_greedy (cls_has Digit) (ds @ CHR ''.'' # fs @ r) ?K2 = Some x"
      using ds k2 by (intro star_greedy_all) (auto simp: is_digit_def)
    with m show ?thesis by simp
  next
    assume m: "m = ds @ fs"
    from fs(2) obtain gs d where g: "ds @ fs = gs @ [d]"
      by (metis append_is_Nil_conv rev_exhaust)
    with ds fs(1) have gd: "\<forall>c\<in>set gs. is_digit c" "is_digit d"
      by (metis Un_iff set_append in_set_conv_decomp)+
    from digit_not_punct [OF gd(2)] have dn: "d \<noteq> CHR ''.''" by auto
    have n3: "?K3 r cs = None" using r' by (cases r) auto
    have n: "?K2 r = None"
    proof (cases r)
      case Nil
      then show ?thesis by simp
    next
      case (Cons c t)
      show ?thesis
      proof (cases "c = CHR ''.''")
        case True
        with r Cons have "t = [] \<or> \<not> is_digit (hd t)" by simp
        then have "?K3 t cs = None" by (cases t) auto
        with True Cons n3 show ?thesis by simp
      next
        case False
        with Cons n3 show ?thesis by simp
      qed
    qed
    have "star_greedy (cls_has Digit) r (\<lambda>s'. K s' cs) = Some x"
      using r' K by (simp add: star_greedy_stop)
    then have s: "?K2 (d # r) = Some x" using gd(2) dn by simp
    have "star_greedy (cls_has Digit) (gs @ d # r) ?K2 = Some x"
      using gd r' n s by (intro star_greedy_back) auto
    with m g show ?thesis by simp
  qed
qed

lemma mantissa_head:
  assumes "pattern_mantissa m"
  shows "m \<noteq> [] \<and> hd m \<notin> set ''-+''"
proof -
  from assms obtain ds fs where ds: "\<forall>c\<in>set ds. is_digit c"
    and fs: "\<forall>c\<in>set fs. is_digit c" "fs \<noteq> []"
    and m: "m = ds @ fs \<or> m = ds @ ''.'' @ fs"
    by (auto simp: pattern_mantissa_def)
  show ?thesis
  proof (cases ds)
    case Nil
    from fs obtain f fs' where "fs = f # fs'" "is_digit f" by (cases fs) auto
    with Nil m digit_not_punct [of f] show ?thesis by auto
  next
    case (Cons d ds')
    with ds have "is_digit d" by simp
    with Cons m digit_not_punct [of d] show ?thesis by auto
  qed
qed

lemma float_match:
  assumes "pattern_literal l" and "literal_end post" and "k post cs = Some x"
  shows "rmatch WGSL_FLOAT_RE (l @ post) cs k = Some x"
proof -
  from assms(1) obtain sg m ex where l: "l = sg @ m @ ex" and sg: "is_sign sg"
    and m: "pattern_mantissa m" and ex: "is_exponent ex"
    by (auto simp: pattern_literal_def)
  let ?K = "\<lambda>s4 c4. rmatch (Opt EXP_RE) s4 c4 k"
  let ?K1 = "\<lambda>s1 c1. rmatch (Star Digit) s1 c1
           (\<lambda>s2 c2. rmatch (Opt (C (Lit CHR ''.''))) s2 c2
              (\<lambda>s3 c3. rmatch (Plus Digit) s3 c3 ?K))"
  have e: "?K (ex @ post) cs = Some x"
    using ex assms(2,3) by (intro exp_match) (auto simp: literal_end_def)
  have r: "ex @ post = [] \<or> (\<not> is_digit (hd (ex @ post))
             \<and> (hd (ex @ post) = CHR ''.'' \<longrightarrow>
                  tl (ex @ post) = [] \<or> \<not> is_digit (hd (tl (ex @ post)))))"
  proof (cases "ex = []")
    case True
    with assms(2) show ?thesis by (auto simp: literal_end_def)
  next
    case False
    with ex obtain e' t where "ex = e' # t" "e' \<in> set ''eE''" by (auto simp: is_exponent_def)
    then show ?thesis by (auto simp: is_digit_def)
  qed
  have k1: "?K1 (m @ ex @ post) cs = Some x"
    using mant_match [OF m r, of ?K cs x] e by simp
  from mantissa_head [OF m] obtain h t where mh: "m = h # t" "h \<notin> set ''-+''"
    by (cases m) auto
  have "rmatch (Opt (C (OneOf ''-+''))) (sg @ m @ ex @ post) cs ?K1 = Some x"
  proof (cases "sg = []")
    case True
    with k1 mh show ?thesis by simp
  next
    case False
    with sg obtain c where "sg = [c]" "c \<in> set ''-+''" by (auto simp: is_sign_def)
    with k1 show ?thesis by simp
  qed
  with l show ?thesis by (simp add: WGSL_FLOAT_RE_unfold)
qed

lemma pattern_literal_nonempty: "pattern_literal l \<Longrightarrow> l \<noteq> []"
  using mantissa_head by (auto simp: pattern_literal_def)

lemma re_match_float:
  assumes "pattern_literal l" and "literal_end post"
  shows "re_match WGSL_FLOAT_RE (l @ post) = Some (l, [])"
  unfolding re_match_def re_match_at_def
  using float_match [OF assms, of "\<lambda>s' cs. if False \<and> length s' = length (l @ post) then None
                else Some ((take (length (l @ post) - length s') (l @ post), cs), s')" "[]"
          "((l, []), post)"]
  by simp

lemma re_match_float_no_start:
  "\<not> is_digit c \<Longrightarrow> c \<notin> set ''-+.'' \<Longrightarrow> re_match WGSL_FLOAT_RE (c # s) = None"
  by (simp add: re_match_def re_match_at_def WGSL_FLOAT_RE_unfold)

lemma re_search_float:
  assumes "plain_text pre" and "pattern_literal l" and "literal_end post"
  shows "re_search WGSL_FLOAT_RE (pre @ l @ post) = Some (l, [])"
  using assms(1)
proof (induction pre)
  case Nil
  from pattern_literal_nonempty [OF assms(2)] obtain h t where "l = h # t" by (cases l) auto
  with re_match_float [OF assms(2,3)] show ?case by simp
next
  case (Cons c pre)
  then have "\<not> is_digit c" "c \<notin> set ''-+.''" "plain_text pre" by (auto simp: plain_text_def)
  with re_match_float_no_start [of c "pre @ l @ post"] Cons.IH show ?case by simp
qed

lemma pattern_literal_numeric: "pattern_literal l \<Longrightarrow> numeric_literal l"
proof -
  assume "pattern_literal l"
  then obtain sg m x where l: "l = sg @ m @ x" "is_sign sg" "is_exponent x"
    and "pattern_mantissa m"
    unfolding pattern_literal_def by blast
  then obtain ds fs where "\<forall>c\<in>set ds. is_digit c" "\<forall>c\<in>set fs. is_digit c" "fs \<noteq> []"
    "m = ds @ fs \<or> m = ds @ ''.'' @ fs"
    unfolding pattern_mantissa_def by blast
  then have "is_mantissa m" unfolding is_mantissa_def by blast
  with l show ?thesis unfolding numeric_literal_def by blast
qed

lemma numeric_literal_digit:
  assumes "numeric_literal l"
  shows "\<exists>c\<in>set l. is_digit c"
proof -
  from assms obtain sg m ex where l: "l = sg @ m @ ex" and "is_mantissa m"
    unfolding numeric_literal_def by blast
  then obtain ds fs where n: "ds @ fs \<noteq> []" and d: "\<forall>c\<in>set (ds @ fs). is_digit c"
    and m: "m = ds @ fs \<or> m = ds @ ''.'' @ fs"
    unfolding is_mantissa_def by auto
  from n have h: "hd (ds @ fs) \<in> set (ds @ fs)" by (rule hd_in_set)
  with d have g: "is_digit (hd (ds @ fs))" by blast
  from h l m have "hd (ds @ fs) \<in> set l" by auto
  with g show ?thesis by blast
qed

lemma pattern_literal_single: "is_digit d \<Longrightarrow> pattern_literal [d]"
proof -
  assume d: "is_digit d"
  have "pattern_mantissa [d]" unfolding pattern_mantissa_def
    using d by (intro exI [of _ "[]"] exI [of _ "[d]"]) simp
  moreover have "is_sign []" "is_exponent []" by (simp_all add: is_sign_def is_exponent_def)
  ultimately show ?thesis unfolding pattern_literal_def
    by (intro exI [of _ "[]"] exI [of _ "[d]"]) simp
qed

lemma has_literal_iff_digit:
  "(\<exists>pre l post. p = pre @ l @ post \<and> numeric_literal l) \<longleftrightarrow> (\<exists>c\<in>set p. is_digit c)"
proof
  assume "\<exists>pre l post. p = pre @ l @ post \<and> numeric_literal l"
  then obtain pre l post where "p = pre @ l @ post" "numeric_literal l" by blast
  with numeric_literal_digit [of l] show "\<exists>c\<in>set p. is_digit c" by auto
next
  assume "\<exists>c\<in>set p. is_digit c"
  then obtain d where "d \<in> set p" "is_digit d" by blast
  then obtain pre post where "p = pre @ [d] @ post" by (auto simp: in_set_conv_decomp)
  with pattern_literal_numeric [OF pattern_literal_single [OF \<open>is_digit d\<close>]]
  show "\<exists>pre l post. p = pre @ l @ post \<and> numeric_literal l"
    by blast
qed

lemma pattern_literalI:
  assumes "is_sign sg" and "\<forall>c\<in>set ds. is_digit c" and "\<forall>c\<in>set fs. is_digit c" and "fs \<noteq> []"
    and "is_exponent ex"
  shows "pattern_literal (sg @ (ds @ ''.'' @ fs) @ ex)"
proof -
  have "pattern_mantissa (ds @ ''.'' @ fs)" unfolding pattern_mantissa_def
    using assms(2,3,4) by blast
  with assms(1,5) show ?thesis unfolding pattern_literal_def by blast
qed

lemma pattern_literal_digits:
  assumes "is_sign sg" and "ds \<noteq> []" and "\<forall>c\<in>set ds. is_digit c"
  shows "pattern_literal (sg @ ds)"
proof -
  have "pattern_mantissa ds" unfolding pattern_mantissa_def
    using assms(2,3) by (intro exI [of _ "[]"] exI [of _ ds]) simp
  moreover have "is_exponent []" by (simp add: is_exponent_def)
  ultimately have "\<exists>m x. sg @ ds = sg @ m @ x \<and> is_sign sg \<and> pattern_mantissa m \<and> is_exponent x"
    using assms(1) by (intro exI [of _ ds] exI [of _ "[]"]) simp
  then show ?thesis unfolding pattern_literal_def by blast
qed

lemma trailing_point_literal:
  assumes "is_sign sg" and "ds \<noteq> []" and "\<forall>c\<in>set ds. is_digit c" and "is_exponent ex"
  shows "numeric_literal (sg @ ds @ ''.'' @ ex)"
proof -
  have "is_mantissa (ds @ ''.'')" unfolding is_mantissa_def
    using assms(2,3) by (intro exI [of _ ds] exI [of _ "[]"]) simp
  with assms(1,4)
  have "\<exists>m x. sg @ ds @ ''.'' @ ex = sg @ m @ x \<and> is_sign sg \<and> is_mantissa m \<and> is_exponent x"
    by (intro exI [of _ "ds @ ''.''"] exI [of _ ex]) simp
  then show ?thesis unfolding numeric_literal_def by blast
qed

lemma literal_end_point_exponent:
  assumes "is_exponent ex" and "ex \<noteq> []"
  shows "literal_end (''.'' @ ex @ post)"
proof -
  from assms obtain e t where "ex = e # t" "e \<in> set ''eE''" by (auto simp: is_exponent_def)
  then show ?thesis by (auto simp: literal_end_def is_digit_def)
qed

text \<open>
  What the extractor gets right. It raises its ParseError, which holds the fragment,
  exactly when no part of the fragment is a numeric literal, which is exactly when the
  fragment has no digit; it raises nothing else. When a literal of the pattern (a decimal
  point, if any, is followed by a digit) stands between text that cannot start a match and
  text that cannot prolong it, the extractor returns the float of that literal.
\<close>

theorem extract_float_pattern_literal:
  "(extract_float float_of p = Inl (ParseError p)
      \<longleftrightarrow> \<not> (\<exists>pre l post. p = pre @ l @ post \<and> numeric_literal l))
   \<and> (\<forall>e. extract_float float_of p = Inl e \<longrightarrow> e = ParseError p)
   \<and> ((\<exists>x. extract_float float_of p = Inr x) \<longleftrightarrow> (\<exists>c\<in>set p. is_digit c))
   \<and> (plain_text pre \<and> pattern_literal l \<and> literal_end post \<longrightarrow>
        extract_float float_of (pre @ l @ post) = Inr (float_of l))"
proof -
  have n: "re_search WGSL_FLOAT_RE p = None \<longleftrightarrow> \<not> (\<exists>c\<in>set p. is_digit c)"
    using re_search_float_None [of p] by simp
  have 1: "extract_float float_of p = Inl (ParseError p)
      \<longleftrightarrow> \<not> (\<exists>pre l post. p = pre @ l @ post \<and> numeric_literal l)"
    unfolding has_literal_iff_digit n [symmetric]
    by (simp add: extract_float_def split: option.splits)
  have 2: "\<forall>e. extract_float float_of p = Inl e \<longrightarrow> e = ParseError p"
    by (auto simp: extract_float_def split: option.splits)
  have 3: "(\<exists>x. extract_float float_of p = Inr x) \<longleftrightarrow> (\<exists>c\<in>set p. is_digit c)"
    using n by (cases "re_search WGSL_FLOAT_RE p") (auto simp: extract_float_def)
  have 4: "plain_text pre \<and> pattern_literal l \<and> literal_end post \<longrightarrow>
        extract_float float_of (pre @ l @ post) = Inr (float_of l)"
    by (auto simp: extract_float_def re_search_float group_def)
  from 1 2 3 4 show ?thesis by blast
qed

lemma extract_float_examples:
  "extract_float exact_float '' (-0.23),'' = Inr (- (23 / 100))
   \<and> extract_float exact_float ''abc,'' = Inl (ParseError ''abc,'')
   \<and> extract_float exact_float ''x = 1.5e-3;'' = Inr (3 / 2000)
   \<and> extract_float exact_float ''1.)'' = Inr 1"
proof -
  have s: "is_sign ''-''" by (simp add: is_sign_def)
  have d: "\<forall>c\<in>set ''0''. is_digit c" "\<forall>c\<in>set ''23''. is_digit c" "''23'' \<noteq> []"
    by (simp_all add: is_digit_def)
  have e: "is_exponent []" by (simp add: is_exponent_def)
  from pattern_literalI [OF s d e] have l: "pattern_literal ''-0.23''" by simp
  have p: "plain_text '' (''" by (simp add: plain_text_def is_digit_def)
  have q: "literal_end ''),''" by (simp add: literal_end_def is_digit_def)
  note t = extract_float_pattern_literal [of exact_float "''abc,''" "'' (''" "''-0.23''" "''),''"]
  from t p l q have "extract_float exact_float ('' ('' @ ''-0.23'' @ ''),'') = Inr (exact_float ''-0.23'')"
    by blast
  moreover have "exact_float ''-0.23'' = - (23 / 100)" by code_simp
  ultimately have 1: "extract_float exact_float '' (-0.23),'' = Inr (- (23 / 100))" by simp
  have "\<not> (\<exists>c\<in>set ''abc,''. is_digit c)" by (simp add: is_digit_def)
  with has_literal_iff_digit [of "''abc,''"]
  have "\<not> (\<exists>pre l post. ''abc,'' = pre @ l @ post \<and> numeric_literal l)" by blast
  with t have 2: "extract_float exact_float ''abc,'' = Inl (ParseError ''abc,'')" by blast
  have 3: "extract_float exact_float ''x = 1.5e-3;'' = Inr (3 / 2000)" by code_simp
  have 4: "extract_float exact_float ''1.)'' = Inr 1" by code_simp
  from 1 2 3 4 show ?thesis by blast
qed

text \<open>
  Claim C8. The Float Extractor is to return the value of the numeric literal (optionally
  signed, optionally with a decimal point, optionally in exponential notation) that the
  fragment contains. It does not when the decimal point of the literal is followed by the
  exponent and not by a digit, as in \<open>1.e5\<close>: the pattern matches the digits before the
  point only, and the extractor returns the float of those digits, whatever follows the
  point. So \<open>1.e5\<close>, which denotes 100000, is read as 1, also as the designated component
  of a data line of the shader table.
\<close>

theorem trailing_point_truncated:
  assumes "plain_text pre" and "is_sign sg" and "ds \<noteq> []" and "\<forall>c\<in>set ds. is_digit c"
    and "is_exponent ex" and "ex \<noteq> []"
  shows "numeric_literal (sg @ ds @ ''.'' @ ex)
         \<and> extract_float float_of (pre @ (sg @ ds @ ''.'' @ ex) @ post)
             = Inr (float_of (sg @ ds))"
proof -
  have l: "pattern_literal (sg @ ds)" using assms(2,3,4) by (rule pattern_literal_digits)
  have q: "literal_end (''.'' @ ex @ post)" using assms(5,6) by (rule literal_end_point_exponent)
  have "re_search WGSL_FLOAT_RE (pre @ (sg @ ds) @ (''.'' @ ex @ post)) = Some (sg @ ds, [])"
    using assms(1) l q by (rule re_search_float)
  then have "extract_float float_of (pre @ (sg @ ds) @ (''.'' @ ex @ post))
               = Inr (float_of (sg @ ds))"
    by (simp add: extract_float_def group_def)
  moreover have "numeric_literal (sg @ ds @ ''.'' @ ex)"
    using assms(2,3,4,5) by (rule trailing_point_literal)
  ultimately show ?thesis by simp
qed

theorem trailing_point_truncated_witness:
  "numeric_literal ''1.e5''
   \<and> extract_float exact_float ''1.e5'' = Inr 1
   \<and> exact_float ''1.e5'' = 100000
   \<and> parse_shared_wgsl_param1 exact_float trailing_point_lines
       = Inr [(17, \<lparr>idx = 17, code = ''V'', name = ''Valine'', param1 = 1\<rparr>)]"
proof -
  have p: "plain_text []" by (simp add: plain_text_def)
  have s: "is_sign []" by (simp add: is_sign_def)
  have d: "''1'' \<noteq> []" "\<forall>c\<in>set ''1''. is_digit c" by (simp_all add: is_digit_def)
  have "is_sign []" "''5'' \<noteq> []" "\<forall>c\<in>set ''5''. is_digit c" "CHR ''e'' \<in> set ''eE''"
    by (simp_all add: is_sign_def is_digit_def)
  then have "\<exists>e sg ds. ''e5'' = e # sg @ ds \<and> e \<in> set ''eE'' \<and> is_sign sg \<and> ds \<noteq> []
                \<and> (\<forall>c\<in>set ds. is_digit c)"
    by (intro exI [of _ "CHR ''e''"] exI [of _ "[]"] exI [of _ "''5''"]) simp
  then have e: "is_exponent ''e5''" "''e5'' \<noteq> []" by (simp_all add: is_exponent_def)
  from trailing_point_truncated [OF p s d e, of exact_float "[]"]
  have t: "numeric_literal ''1.e5''"
    "extract_float exact_float ''1.e5'' = Inr (exact_float ''1'')" by simp_all
  have v: "exact_float ''1'' = 1" by code_simp
  have w: "exact_float ''1.e5'' = 100000" by code_simp
  have x: "parse_shared_wgsl_param1 exact_float trailing_point_lines
       = Inr [(17, \<lparr>idx = 17, code = ''V'', name = ''Valine'', param1 = 1\<rparr>)]"
    unfolding trailing_point_lines_def by code_simp
  from t v w x show ?thesis by simp
qed

section \<open>Malformed data lines\<close>














end
